theory Spec2Isabelle
  imports Main "HOL-Library.Sublist"
begin

section \<open>dpkg-builder: link classification, download and extraction\<close>

text \<open>
  The development follows the final version of the tool (the one with the
  \<^verbatim>\<open>dpkgSrc\<close> struct) and, for the comparison of the two iterations, the
  intermediate version's \<^verbatim>\<open>filterLinks\<close>. Go strings are byte strings and are
  modelled as \<^typ>\<open>string\<close>; the unset value of a string field is the empty string.
\<close>

subsection \<open>Functions of package strings\<close>

text \<open>
  \<^verbatim>\<open>strings.HasSuffix(s, suffix)\<close> is
  \<^verbatim>\<open>len(s) >= len(suffix) && s[len(s)-len(suffix):] == suffix\<close>.
\<close>

definition HasSuffix :: "string \<Rightarrow> string \<Rightarrow> bool" where
  "HasSuffix s suf \<longleftrightarrow> length suf \<le> length s \<and> drop (length s - length suf) s = suf"

text \<open>
  \<^verbatim>\<open>strings.LastIndex(s, substr)\<close>: the index of the last instance of
  \<^verbatim>\<open>substr\<close> in \<^verbatim>\<open>s\<close>, or \<open>-1\<close> when there is none.
\<close>

definition LastIndex :: "string \<Rightarrow> string \<Rightarrow> int" where
  "LastIndex s substr =
     (case filter (\<lambda>i. take (length substr) (drop i s) = substr) (rev [0..<Suc (length s)]) of
        [] \<Rightarrow> - 1
      | i # _ \<Rightarrow> int i)"

text \<open>\<^verbatim>\<open>strings.Contains(s, substr)\<close>: some suffix of \<^verbatim>\<open>s\<close> starts with \<^verbatim>\<open>substr\<close>.\<close>

fun Contains :: "string \<Rightarrow> string \<Rightarrow> bool" where
  "Contains [] substr \<longleftrightarrow> substr = []"
| "Contains (c # cs) substr \<longleftrightarrow> prefix substr (c # cs) \<or> Contains cs substr"

subsection \<open>The data model\<close>

text \<open>
  The fields of \<^verbatim>\<open>url.URL\<close> that the tool reads. \<^verbatim>\<open>IsAbs\<close> is
  \<^verbatim>\<open>u.Scheme != ""\<close>.
\<close>

record url =
  Scheme :: string
  Host :: string
  Path :: string
  RawQuery :: string
  Fragment :: string

definition IsAbs :: "url \<Rightarrow> bool" where
  "IsAbs u \<longleftrightarrow> Scheme u \<noteq> ''''"

text \<open>
  \<^verbatim>\<open>type dpkgSrc struct\<close>. \<^verbatim>\<open>BaseURL\<close> is a pointer: \<open>None\<close> is \<^verbatim>\<open>nil\<close>.
\<close>

record dpkgSrc =
  Name :: string
  DSC :: string
  Orig :: string
  Debian :: string
  BaseURL :: "url option"
  DscPath :: string

text \<open>\<^verbatim>\<open>new(dpkgSrc)\<close>: every field has its zero value.\<close>

definition new_dpkgSrc :: dpkgSrc where
  "new_dpkgSrc =
     \<lparr>Name = '''', DSC = '''', Orig = '''', Debian = '''', BaseURL = None, DscPath = ''''\<rparr>"

subsection \<open>The classifier\<close>

text \<open>
  \<^verbatim>\<open>func (d *dpkgSrc) fillFromLinks(links []string)\<close>: the range loop, with the
  \<^verbatim>\<open>switch\<close> as the chain of its cases in source order. The receiver is passed
  in and returned.
\<close>

fun fillFromLinks :: "dpkgSrc \<Rightarrow> string list \<Rightarrow> dpkgSrc" where
  "fillFromLinks d [] = d"
| "fillFromLinks d (l # links) =
     fillFromLinks
       (if HasSuffix l ''.dsc'' then d\<lparr>DSC := l\<rparr>
        else if HasSuffix l ''.orig.tar.xz'' \<or> HasSuffix l ''.orig.tar.gz'' then d\<lparr>Orig := l\<rparr>
        else if HasSuffix l ''.debian.tar.xz'' then d\<lparr>Debian := l\<rparr>
        else d)
       links"

text \<open>
  \<^verbatim>\<open>func filterLinks(links []string) (filteredLinks []string)\<close> of the
  intermediate version: the named result starts as \<^verbatim>\<open>nil\<close> and grows by
  \<^verbatim>\<open>append\<close>.
\<close>

fun filterLinks_loop :: "string list \<Rightarrow> string list \<Rightarrow> string list" where
  "filterLinks_loop filteredLinks [] = filteredLinks"
| "filterLinks_loop filteredLinks (l # links) =
     filterLinks_loop
       (if HasSuffix l ''.dsc'' then filteredLinks @ [l]
        else if HasSuffix l ''.orig.tar.xz'' \<or> HasSuffix l ''.orig.tar.gz'' then filteredLinks @ [l]
        else if HasSuffix l ''.debian.tar.xz'' then filteredLinks @ [l]
        else filteredLinks)
       links"

definition filterLinks :: "string list \<Rightarrow> string list" where
  "filterLinks links = filterLinks_loop [] links"

text \<open>The three suffix rules, named for the statements below.\<close>

definition isDscLink :: "string \<Rightarrow> bool" where
  "isDscLink l \<longleftrightarrow> HasSuffix l ''.dsc''"

definition isOrigLink :: "string \<Rightarrow> bool" where
  "isOrigLink l \<longleftrightarrow> HasSuffix l ''.orig.tar.xz'' \<or> HasSuffix l ''.orig.tar.gz''"

definition isDebianLink :: "string \<Rightarrow> bool" where
  "isDebianLink l \<longleftrightarrow> HasSuffix l ''.debian.tar.xz''"

subsection \<open>Paths\<close>

text \<open>
  \<^verbatim>\<open>filepath.FromSlash\<close> replaces \<^verbatim>\<open>/\<close> by the separator of the platform. The
  tool is a Debian tool: the separator is \<^verbatim>\<open>/\<close> and the path comes back as it is.
\<close>

definition FromSlash :: "string \<Rightarrow> string" where
  "FromSlash path = path"

text \<open>
  \<^verbatim>\<open>filepath.Split\<close> cuts right after the last separator:
  \<^verbatim>\<open>path[:i+1], path[i+1:]\<close>.
\<close>

definition Split :: "string \<Rightarrow> string \<times> string" where
  "Split path =
     (let i = LastIndex path ''/''
      in (take (nat (i + 1)) path, drop (nat (i + 1)) path))"

subsection \<open>What the tool takes from its libraries and from the machine\<close>

text \<open>
  The functions of \<^verbatim>\<open>net/url\<close> and \<^verbatim>\<open>path/filepath\<close> that have no source in
  the repository are parameters: \<^verbatim>\<open>url.Parse\<close> (\<open>Inl\<close> is its error),
  \<^verbatim>\<open>(*URL).ResolveReference\<close>, \<^verbatim>\<open>(*URL).String\<close>, \<^verbatim>\<open>url.PathEscape\<close> and
  \<^verbatim>\<open>filepath.Join\<close> of two elements.
\<close>

record golib =
  urlParse :: "string \<Rightarrow> string + url"
  urlResolveReference :: "url \<Rightarrow> url \<Rightarrow> url"
  urlString :: "url \<Rightarrow> string"
  urlPathEscape :: "string \<Rightarrow> string"
  pathJoin :: "string \<Rightarrow> string \<Rightarrow> string"

text \<open>
  An HTML token as \<^verbatim>\<open>getLinks\<close> reads it: the token type, and for a start tag
  its name (\<^verbatim>\<open>Data\<close>) and its attributes (\<^verbatim>\<open>Key\<close>, \<^verbatim>\<open>Val\<close>).
\<close>

datatype token = ErrorToken | StartTagToken string "(string \<times> string) list" | OtherToken

text \<open>
  An HTTP response: the bytes that \<^verbatim>\<open>io.Copy\<close> delivers from its body, whether
  the copy ends in an error, and the tokens that \<^verbatim>\<open>html.NewTokenizer\<close> reads from
  the body.
\<close>

record response =
  Body :: string
  CopyErr :: bool
  Tokens :: "token list"

text \<open>
  What running a command does: \<^verbatim>\<open>StdoutPipe\<close> fails, \<^verbatim>\<open>Start\<close> fails, or the
  process runs, prints lines, and \<^verbatim>\<open>Wait\<close> returns an error or not.
\<close>

datatype cmdOutcome = PipeFails | StartFails | WaitFails "string list" | Exited "string list"

text \<open>
  The machine: whether \<^verbatim>\<open>os.Mkdir\<close> and \<^verbatim>\<open>os.Create\<close> fail on a path for a
  reason of its own (permissions, a full disk) where the file system would allow the
  call, what \<^verbatim>\<open>http.Get\<close> answers (\<open>None\<close> is its error), what a command does
  (program, arguments, working directory).
\<close>

record env =
  mkdirFails :: "string \<Rightarrow> bool"
  createFails :: "string \<Rightarrow> bool"
  httpGet :: "string \<Rightarrow> response option"
  runCmd :: "string \<Rightarrow> string list \<Rightarrow> string \<Rightarrow> cmdOutcome"

text \<open>
  The file system is a tree of directories and regular files, without symbolic links.
  A node is identified by the names on the way to it from the root; the root is the
  empty list of names and is always a directory. A regular file holds its bytes.
\<close>

type_synonym key = "string list"

datatype node = Dir | File string

text \<open>
  The trace lists what the run printed to the log and asked of the network and of
  the process table, in order: \<open>LogDownloading u path\<close> is the line
  \<^verbatim>\<open>Downloading %s to %s...\<close> of \<^verbatim>\<open>download\<close>, \<open>LogSkipping\<close> the line
  \<^verbatim>\<open>File already exists, skipping.\<close>, \<open>LogPrint\<close> any other line, \<open>HttpGet\<close> a
  call of \<^verbatim>\<open>http.Get\<close>, \<open>CmdStart\<close> a call of \<^verbatim>\<open>cmd.Start\<close>. The files that
  the started command writes itself are not modelled.
\<close>

datatype event =
    LogPrint string
  | LogDownloading url string
  | LogSkipping
  | HttpGet string
  | CmdStart string "string list" string

text \<open>
  The state of a run: the working directory of the process, which the tool never
  changes, the file system, and the trace.
\<close>

record world =
  cwd :: key
  fs :: "key \<rightharpoonup> node"
  trace :: "event list"

definition emit :: "event \<Rightarrow> world \<Rightarrow> world" where
  "emit e w = w\<lparr>trace := trace w @ [e]\<rparr>"

text \<open>
  \<^verbatim>\<open>log.Fatalf\<close> ends the process; a nil dereference panics. A function that can
  end the run returns \<open>Inl\<close> of the reason, and the world as it is at that moment.
\<close>

datatype fatal =
    ErrParseURL string
  | ErrParseBase
  | ErrGet string
  | ErrMkdir string
  | ErrCreateFile string
  | ErrDownload url
  | ErrCopy url string
  | ErrStdoutPipe
  | ErrStart
  | ErrWait
  | NilDereference

fun downloadsOf :: "event list \<Rightarrow> (url \<times> string) list" where
  "downloadsOf [] = []"
| "downloadsOf (LogDownloading u path # es) = (u, path) # downloadsOf es"
| "downloadsOf (_ # es) = downloadsOf es"

fun fetchesOf :: "event list \<Rightarrow> string list" where
  "fetchesOf [] = []"
| "fetchesOf (HttpGet s # es) = s # fetchesOf es"
| "fetchesOf (_ # es) = fetchesOf es"

fun commandsOf :: "event list \<Rightarrow> (string \<times> string list \<times> string) list" where
  "commandsOf [] = []"
| "commandsOf (CmdStart name args dir # es) = (name, args, dir) # commandsOf es"
| "commandsOf (_ # es) = commandsOf es"

subsection \<open>The calls of package os\<close>

text \<open>
  A path names a node the way the system resolves it. The path is cut at every
  \<^verbatim>\<open>/\<close>; empty pieces (a leading, a doubled or a trailing \<^verbatim>\<open>/\<close>) name nothing.
\<close>

fun splitSlash :: "string \<Rightarrow> string list" where
  "splitSlash [] = [[]]"
| "splitSlash (c # cs) =
     (if c = CHR ''/'' then [] # splitSlash cs
      else case splitSlash cs of [] \<Rightarrow> [[c]] | x # xs \<Rightarrow> (c # x) # xs)"

definition names :: "string \<Rightarrow> string list" where
  "names p = filter (\<lambda>n. n \<noteq> []) (splitSlash p)"

text \<open>
  The node at a key; one step of the resolution from a directory (\<^verbatim>\<open>.\<close> stays,
  \<^verbatim>\<open>..\<close> goes to the parent, and the parent of the root is the root); and the
  resolution of a list of names from a key: every node on the way must be there
  (\<^verbatim>\<open>ENOENT\<close> otherwise) and be a directory (\<^verbatim>\<open>ENOTDIR\<close> otherwise).
\<close>

definition nodeAt :: "(key \<rightharpoonup> node) \<Rightarrow> key \<Rightarrow> node option" where
  "nodeAt f k = (if k = [] then Some Dir else f k)"

definition step :: "key \<Rightarrow> string \<Rightarrow> key" where
  "step k n = (if n = ''.'' then k else if n = ''..'' then butlast k else k @ [n])"

datatype stat = Found key node | NoEnt | NotDir

fun walk :: "(key \<rightharpoonup> node) \<Rightarrow> key \<Rightarrow> string list \<Rightarrow> stat" where
  "walk f k [] = (case nodeAt f k of None \<Rightarrow> NoEnt | Some n \<Rightarrow> Found k n)"
| "walk f k (n # ns) =
     (case nodeAt f k of
        None \<Rightarrow> NoEnt
      | Some (File b) \<Rightarrow> NotDir
      | Some Dir \<Rightarrow> walk f (step k n) ns)"

text \<open>A path that begins with \<^verbatim>\<open>/\<close> starts at the root, any other at the working directory.\<close>

definition start :: "world \<Rightarrow> string \<Rightarrow> key" where
  "start w p = (if take 1 p = ''/'' then [] else cwd w)"

text \<open>
  \<^verbatim>\<open>os.Stat(name)\<close>: the node that the path names, or the error. The empty path
  names nothing (\<^verbatim>\<open>ENOENT\<close>); a path with a trailing \<^verbatim>\<open>/\<close> names directories
  only (\<^verbatim>\<open>ENOTDIR\<close> on a regular file). Other errors of \<^verbatim>\<open>stat\<close> (permissions,
  names too long) are not modelled.
\<close>

definition osStat :: "world \<Rightarrow> string \<Rightarrow> stat" where
  "osStat w p =
     (if p = [] then NoEnt
      else case walk (fs w) (start w p) (names p) of
             Found k n \<Rightarrow>
               (case n of
                  Dir \<Rightarrow> Found k Dir
                | File b \<Rightarrow> if last p = CHR ''/'' then NotDir else Found k (File b))
           | NoEnt \<Rightarrow> NoEnt
           | NotDir \<Rightarrow> NotDir)"

text \<open>
  Where a call that makes a node puts it: the path must have a last name other than
  \<^verbatim>\<open>.\<close> and \<^verbatim>\<open>..\<close>, and the names before it must lead to a directory.
\<close>

definition target :: "world \<Rightarrow> string \<Rightarrow> key option" where
  "target w p =
     (let ns = names p
      in if ns = [] \<or> last ns = ''.'' \<or> last ns = ''..'' then None
         else case walk (fs w) (start w p) (butlast ns) of
                Found k n \<Rightarrow> (case n of Dir \<Rightarrow> Some (k @ [last ns]) | File b \<Rightarrow> None)
              | NoEnt \<Rightarrow> None
              | NotDir \<Rightarrow> None)"

text \<open>
  \<^verbatim>\<open>os.Mkdir(name, 0755)\<close>: \<open>None\<close> is its error. It makes a directory where
  nothing is; trailing \<^verbatim>\<open>/\<close> are allowed.
\<close>

definition osMkdir :: "env \<Rightarrow> string \<Rightarrow> world \<Rightarrow> world option" where
  "osMkdir e p w =
     (case target w p of
        None \<Rightarrow> None
      | Some k \<Rightarrow>
          if fs w k \<noteq> None \<or> mkdirFails e p then None
          else Some (w\<lparr>fs := (fs w)(k \<mapsto> Dir)\<rparr>))"

text \<open>
  \<^verbatim>\<open>os.Create(name)\<close>: \<open>None\<close> is its error, otherwise the open file (its key).
  It makes an empty regular file, or empties the regular file that is there; it fails
  on a directory and on a path with a trailing \<^verbatim>\<open>/\<close>.
\<close>

definition osCreate :: "env \<Rightarrow> string \<Rightarrow> world \<Rightarrow> (key \<times> world) option" where
  "osCreate e p w =
     (case target w p of
        None \<Rightarrow> None
      | Some k \<Rightarrow>
          if last p = CHR ''/'' \<or> fs w k = Some Dir \<or> createFails e p then None
          else Some (k, w\<lparr>fs := (fs w)(k \<mapsto> File '''')\<rparr>))"

subsection \<open>The download manager\<close>

text \<open>\<^verbatim>\<open>func buildPath(u *url.URL, pkg string) (path string, parentDir string)\<close>\<close>

definition buildPath :: "golib \<Rightarrow> url \<Rightarrow> string \<Rightarrow> string \<times> string" where
  "buildPath lib u pkg =
     (let i = LastIndex (Path u) ''/'';
          parentDir = FromSlash pkg;
          path = pathJoin lib parentDir (FromSlash (drop (nat (i + 1)) (Path u)))
      in (path, parentDir))"

text \<open>
  \<^verbatim>\<open>func ensureDirExists(dir string)\<close>: \<^verbatim>\<open>os.IsNotExist\<close> holds of
  \<^verbatim>\<open>ENOENT\<close> only.
\<close>

definition ensureDirExists :: "env \<Rightarrow> string \<Rightarrow> world \<Rightarrow> (fatal + unit) \<times> world" where
  "ensureDirExists e dir w =
     (if osStat w dir = NoEnt then
        (case osMkdir e dir w of
           None \<Rightarrow> (Inl (ErrMkdir dir), w)
         | Some w' \<Rightarrow> (Inr (), w'))
      else (Inr (), w))"

text \<open>\<^verbatim>\<open>func fileExists(file string) bool\<close>: \<^verbatim>\<open>os.Stat\<close> returned no error.\<close>

definition fileExists :: "string \<Rightarrow> world \<Rightarrow> bool" where
  "fileExists file w = (case osStat w file of Found k n \<Rightarrow> True | NoEnt \<Rightarrow> False | NotDir \<Rightarrow> False)"

text \<open>
  \<^verbatim>\<open>func download(u *url.URL, pkgName string) (path string)\<close>. \<^verbatim>\<open>io.Copy\<close>
  leaves in the open file the bytes it delivered.
\<close>

definition download :: "golib \<Rightarrow> env \<Rightarrow> url \<Rightarrow> string \<Rightarrow> world \<Rightarrow> (fatal + string) \<times> world" where
  "download lib e u pkgName w =
     (let (path, dir) = buildPath lib u pkgName;
          w1 = emit (LogDownloading u path) w
      in case ensureDirExists e dir w1 of
           (Inl err, w2) \<Rightarrow> (Inl err, w2)
         | (Inr _, w2) \<Rightarrow>
             if fileExists path w2 then (Inr path, emit LogSkipping w2)
             else
               (case osCreate e path w2 of
                  None \<Rightarrow> (Inl (ErrCreateFile path), w2)
                | Some (file, w3) \<Rightarrow>
                    let w4 = emit (HttpGet (urlString lib u)) w3
                    in case httpGet e (urlString lib u) of
                         None \<Rightarrow> (Inl (ErrDownload u), w4)
                       | Some resp \<Rightarrow>
                           let w5 = w4\<lparr>fs := (fs w4)(file \<mapsto> File (Body resp))\<rparr>
                           in if CopyErr resp then (Inl (ErrCopy u path), w5) else (Inr path, w5)))"

subsection \<open>Fetching and extracting a source package\<close>

text \<open>
  The head of the loop body of \<^verbatim>\<open>fetch\<close>: parse the href, and resolve it against
  \<^verbatim>\<open>d.BaseURL\<close> when it is not absolute.
\<close>

definition linkURL :: "golib \<Rightarrow> dpkgSrc \<Rightarrow> string \<Rightarrow> fatal + url" where
  "linkURL lib d l =
     (case urlParse lib l of
        Inl err \<Rightarrow> Inl (ErrParseURL l)
      | Inr u \<Rightarrow>
          if \<not> IsAbs u then
            (case BaseURL d of
               None \<Rightarrow> Inl NilDereference
             | Some base \<Rightarrow> Inr (urlResolveReference lib base u))
          else Inr u)"

text \<open>The range loop of \<^verbatim>\<open>fetch\<close> over the links that remain.\<close>

fun fetch_loop :: "golib \<Rightarrow> env \<Rightarrow> string list \<Rightarrow> dpkgSrc \<Rightarrow> world \<Rightarrow> (fatal + dpkgSrc) \<times> world" where
  "fetch_loop lib e [] d w = (Inr d, w)"
| "fetch_loop lib e (l # links) d w =
     (case linkURL lib d l of
        Inl err \<Rightarrow> (Inl err, w)
      | Inr u \<Rightarrow>
          (case download lib e u (Name d) w of
             (Inl err, w') \<Rightarrow> (Inl err, w')
           | (Inr path, w') \<Rightarrow>
               fetch_loop lib e links (if l = DSC d then d\<lparr>DscPath := path\<rparr> else d) w'))"

text \<open>\<^verbatim>\<open>func (d *dpkgSrc) fetch()\<close>\<close>

definition fetch :: "golib \<Rightarrow> env \<Rightarrow> dpkgSrc \<Rightarrow> world \<Rightarrow> (fatal + dpkgSrc) \<times> world" where
  "fetch lib e d w = fetch_loop lib e [DSC d, Debian d, Orig d] d w"

text \<open>
  \<^verbatim>\<open>func (d *dpkgSrc) extract()\<close>. The lines that the reader goroutine logs are
  the lines of the outcome.
\<close>

definition "extract" :: "env \<Rightarrow> dpkgSrc \<Rightarrow> world \<Rightarrow> (fatal + unit) \<times> world" where
  "extract e d w =
     (let dscFile = snd (Split (DscPath d));
          args = [''-x'', ''--no-check'', dscFile];
          dir = FromSlash (Name d)
      in case runCmd e ''dpkg-source'' args dir of
           PipeFails \<Rightarrow> (Inl ErrStdoutPipe, w)
         | StartFails \<Rightarrow> (Inl ErrStart, emit (CmdStart ''dpkg-source'' args dir) w)
         | WaitFails out \<Rightarrow>
             (Inl ErrWait,
              w\<lparr>trace := trace w @ CmdStart ''dpkg-source'' args dir # map LogPrint out\<rparr>)
         | Exited out \<Rightarrow>
             (Inr (),
              w\<lparr>trace := trace w @ CmdStart ''dpkg-source'' args dir # map LogPrint out\<rparr>))"

subsection \<open>The commands\<close>

definition debianTestingBaseURL :: string where
  "debianTestingBaseURL = ''https://packages.debian.org/buster/''"

text \<open>
  \<^verbatim>\<open>func validateArgs(c *cli.Context) (name string, ok bool)\<close>, on the arguments
  of the context.
\<close>

definition validateArgs :: "string list \<Rightarrow> string \<times> bool" where
  "validateArgs args = (case args of [] \<Rightarrow> ('''', False) | name # _ \<Rightarrow> (name, True))"

text \<open>\<^verbatim>\<open>func getHref(t html.Token) (href string, ok bool)\<close>\<close>

fun getHref :: "(string \<times> string) list \<Rightarrow> string \<times> bool" where
  "getHref [] = ('''', False)"
| "getHref ((k, v) # attrs) = (if k = ''href'' then (v, True) else getHref attrs)"

text \<open>
  \<^verbatim>\<open>func getLinks(body io.ReadCloser) (links []string)\<close>: the tokenizer answers
  \<^verbatim>\<open>ErrorToken\<close> at the end of its input.
\<close>

fun getLinks_loop :: "token list \<Rightarrow> string list \<Rightarrow> string list" where
  "getLinks_loop [] links = links"
| "getLinks_loop (ErrorToken # ts) links = links"
| "getLinks_loop (StartTagToken data attrs # ts) links =
     (if data = ''a'' then
        (case getHref attrs of
           (href, True) \<Rightarrow> getLinks_loop ts (links @ [href])
         | (href, False) \<Rightarrow> getLinks_loop ts links)
      else getLinks_loop ts links)"
| "getLinks_loop (OtherToken # ts) links = getLinks_loop ts links"

definition getLinks :: "token list \<Rightarrow> string list" where
  "getLinks ts = getLinks_loop ts []"

text \<open>
  \<^verbatim>\<open>func commandBuild(c *cli.Context) error\<close>: the result is the returned error,
  \<open>None\<close> for \<^verbatim>\<open>nil\<close>.
\<close>

definition commandBuild :: "string list \<Rightarrow> world \<Rightarrow> (fatal + string option) \<times> world" where
  "commandBuild args w =
     (let w1 = emit (LogPrint ''build'') w;
          (pkgName, ok) = validateArgs args
      in if \<not> ok then (Inr (Some ''fetch: no package name provided''), w1)
         else (Inr None, emit (LogPrint (''Building '' @ pkgName)) w1))"

text \<open>\<^verbatim>\<open>func commandFetch(c *cli.Context) error\<close>\<close>

definition commandFetch :: "golib \<Rightarrow> env \<Rightarrow> string list \<Rightarrow> world \<Rightarrow> (fatal + string option) \<times> world" where
  "commandFetch lib e args w =
     (let (pkgName, ok) = validateArgs args
      in if \<not> ok then (Inr (Some ''fetch: no package name provided''), w)
         else
           let w1 = emit (LogPrint (''Fetching '' @ pkgName)) w
           in case urlParse lib debianTestingBaseURL of
                Inl err \<Rightarrow> (Inl ErrParseBase, w1)
              | Inr baseURL \<Rightarrow>
                  let fetchURL = urlString lib baseURL @ urlPathEscape lib pkgName;
                      w2 = emit (LogPrint (''Downloading '' @ fetchURL @ ''...'')) w1;
                      w3 = emit (HttpGet fetchURL) w2
                  in case httpGet e fetchURL of
                       None \<Rightarrow> (Inl (ErrGet fetchURL), w3)
                     | Some resp \<Rightarrow>
                         let links = getLinks (Tokens resp);
                             dp = (fillFromLinks new_dpkgSrc links)
                                    \<lparr>Name := pkgName, BaseURL := Some baseURL\<rparr>
                         in case fetch lib e dp w3 of
                              (Inl err, w4) \<Rightarrow> (Inl err, w4)
                            | (Inr dp', w4) \<Rightarrow>
                                (case extract e dp' w4 of
                                   (Inl err, w5) \<Rightarrow> (Inl err, w5)
                                 | (Inr _, w5) \<Rightarrow> (Inr None, w5)))"
subsection \<open>An example machine\<close>

text \<open>
  For the concrete runs below: the library functions on the inputs of those runs.
  A string of letters, digits and \<^verbatim>\<open>._-+\<close> (the empty string too) parses as a
  relative reference with that path; the base URL of the tool parses into its
  scheme, host and path; the example parses nothing else. Resolving such a
  reference, other than \<^verbatim>\<open>.\<close> and \<^verbatim>\<open>..\<close>, against a base puts its path after
  the last \<^verbatim>\<open>/\<close> of the base path, and the empty reference gives the base.
  A URL without query and fragment prints as its scheme, host and path. Escaping a
  package name of such characters leaves it as it is.
\<close>

definition plainChar :: "char \<Rightarrow> bool" where
  "plainChar c \<longleftrightarrow> c \<in> set ''abcdefghijklmnopqrstuvwxyzABCDEFGHIJKLMNOPQRSTUVWXYZ0123456789._-+''"

definition exampleBase :: url where
  "exampleBase =
     \<lparr>Scheme = ''https'', Host = ''packages.debian.org'', Path = ''/buster/'',
      RawQuery = '''', Fragment = ''''\<rparr>"

definition exampleParse :: "string \<Rightarrow> string + url" where
  "exampleParse s =
     (if s = debianTestingBaseURL then Inr exampleBase
      else if list_all plainChar s then
        Inr \<lparr>Scheme = '''', Host = '''', Path = s, RawQuery = '''', Fragment = ''''\<rparr>
      else Inl ''not in the example'')"

definition exampleResolve :: "url \<Rightarrow> url \<Rightarrow> url" where
  "exampleResolve base ref =
     (if Path ref = '''' then base
      else \<lparr>Scheme = Scheme base, Host = Host base,
            Path = take (nat (LastIndex (Path base) ''/'' + 1)) (Path base) @ Path ref,
            RawQuery = RawQuery ref, Fragment = Fragment ref\<rparr>)"

definition exampleString :: "url \<Rightarrow> string" where
  "exampleString u =
     (if Scheme u = '''' then '''' else Scheme u @ '':'') @
     (if Host u = '''' then '''' else ''//'' @ Host u) @ Path u"

text \<open>
  \<^verbatim>\<open>filepath.Clean\<close> and \<^verbatim>\<open>filepath.Join\<close> of two elements, as package
  \<^verbatim>\<open>path/filepath\<close> documents them for a system whose separator is \<^verbatim>\<open>/\<close>:
  \<^verbatim>\<open>Clean\<close> keeps one separator where there are several, drops every \<^verbatim>\<open>.\<close>,
  drops an inner \<^verbatim>\<open>..\<close> with the name before it, drops a \<^verbatim>\<open>..\<close> at the
  beginning of a rooted path, and gives \<^verbatim>\<open>.\<close> where nothing is left;
  \<^verbatim>\<open>Join\<close> cleans what it joined with a separator, from the first element that
  is not empty, and gives the empty string when all are empty.
\<close>

fun slashJoin :: "string list \<Rightarrow> string" where
  "slashJoin [] = ''''"
| "slashJoin [x] = x"
| "slashJoin (x # y # ys) = x @ ''/'' @ slashJoin (y # ys)"

fun cleanNames :: "bool \<Rightarrow> string list \<Rightarrow> string list \<Rightarrow> string list" where
  "cleanNames rooted out [] = rev out"
| "cleanNames rooted out (n # ns) =
     (if n = ''.'' then cleanNames rooted out ns
      else if n = ''..'' then
        (case out of
           [] \<Rightarrow> if rooted then cleanNames rooted [] ns else cleanNames rooted [n] ns
         | x # xs \<Rightarrow>
             if x = ''..'' then cleanNames rooted (n # out) ns else cleanNames rooted xs ns)
      else cleanNames rooted (n # out) ns)"

definition Clean :: "string \<Rightarrow> string" where
  "Clean p =
     (let rooted = (take 1 p = ''/'');
          s = slashJoin (cleanNames rooted [] (names p))
      in if rooted then ''/'' @ s else if s = '''' then ''.'' else s)"

definition Join :: "string \<Rightarrow> string \<Rightarrow> string" where
  "Join a b =
     (if a \<noteq> '''' then Clean (a @ ''/'' @ b)
      else if b \<noteq> '''' then Clean b
      else '''')"

definition exampleLib :: golib where
  "exampleLib =
     \<lparr>urlParse = exampleParse, urlResolveReference = exampleResolve,
      urlString = exampleString, urlPathEscape = (\<lambda>s. s), pathJoin = Join\<rparr>"

text \<open>
  A machine on which \<^verbatim>\<open>os.Mkdir\<close> and \<^verbatim>\<open>os.Create\<close> fail only where the file
  system does not allow them, every request is answered with the bytes
  \<^verbatim>\<open>data\<close>, and the command runs silently to its end; one on which every
  request fails; and one on which every response breaks off after the bytes
  \<^verbatim>\<open>da\<close>. Then the run that starts in the root directory of a file system with
  nothing else in it and with an empty trace.
\<close>

definition goodEnv :: env where
  "goodEnv =
     \<lparr>mkdirFails = (\<lambda>_. False), createFails = (\<lambda>_. False),
      httpGet = (\<lambda>_. Some \<lparr>Body = ''data'', CopyErr = False, Tokens = []\<rparr>),
      runCmd = (\<lambda>_ _ _. Exited [])\<rparr>"

definition offlineEnv :: env where
  "offlineEnv =
     \<lparr>mkdirFails = (\<lambda>_. False), createFails = (\<lambda>_. False),
      httpGet = (\<lambda>_. None),
      runCmd = (\<lambda>_ _ _. Exited [])\<rparr>"

definition brokenPipeEnv :: env where
  "brokenPipeEnv =
     \<lparr>mkdirFails = (\<lambda>_. False), createFails = (\<lambda>_. False),
      httpGet = (\<lambda>_. Some \<lparr>Body = ''da'', CopyErr = True, Tokens = []\<rparr>),
      runCmd = (\<lambda>_ _ _. Exited [])\<rparr>"

definition emptyWorld :: world where
  "emptyWorld = \<lparr>cwd = [], fs = Map.empty, trace = []\<rparr>"

subsection \<open>Auxiliary notions for the statements\<close>

text \<open>The file system once \<^verbatim>\<open>ensureDirExists\<close> has run.\<close>

definition ensured :: "env \<Rightarrow> string \<Rightarrow> world \<Rightarrow> key \<rightharpoonup> node" where
  "ensured e dir w = fs (snd (ensureDirExists e dir w))"

text \<open>The three artifact URLs of the example index page, and two structs for it.\<close>

definition exampleDscURL :: url where
  "exampleDscURL = exampleBase\<lparr>Path := ''/buster/foo_1.0.dsc''\<rparr>"

definition exampleDebianURL :: url where
  "exampleDebianURL = exampleBase\<lparr>Path := ''/buster/foo_1.0.debian.tar.xz''\<rparr>"

definition exampleOrigURL :: url where
  "exampleOrigURL = exampleBase\<lparr>Path := ''/buster/foo_1.0.orig.tar.gz''\<rparr>"

definition exampleSrc :: dpkgSrc where
  "exampleSrc =
     \<lparr>Name = ''foo'', DSC = ''foo_1.0.dsc'', Orig = ''foo_1.0.orig.tar.gz'',
      Debian = ''foo_1.0.debian.tar.xz'', BaseURL = Some exampleBase, DscPath = ''''\<rparr>"

definition exampleNoLinks :: dpkgSrc where
  "exampleNoLinks = new_dpkgSrc\<lparr>Name := ''foo'', BaseURL := Some exampleBase\<rparr>"

text \<open>A world in which the working directory holds a regular file.\<close>

definition strayWorld :: world where
  "strayWorld = \<lparr>cwd = [], fs = [[''foo_1.0.dsc''] \<mapsto> File ''old''], trace = []\<rparr>"

section \<open>Properties of the classifier\<close>

lemma HasSuffix_iff_suffix: "HasSuffix s suf \<longleftrightarrow> suffix suf s"
proof
  assume "HasSuffix s suf"
  then have "drop (length s - length suf) s = suf"
    by (simp add: HasSuffix_def)
  then show "suffix suf s"
    by (metis suffix_drop)
next
  assume "suffix suf s"
  then obtain zs where "s = zs @ suf"
    by (auto simp: suffix_def)
  then show "HasSuffix s suf"
    by (simp add: HasSuffix_def)
qed

lemma HasSuffix_last: "HasSuffix s suf \<Longrightarrow> suf \<noteq> [] \<Longrightarrow> s \<noteq> [] \<and> last s = last suf"
  by (auto simp: HasSuffix_iff_suffix suffix_def)

lemma dsc_not_orig: "HasSuffix l ''.dsc'' \<Longrightarrow> \<not> isOrigLink l"
  unfolding isOrigLink_def
  using HasSuffix_last [of l "''.dsc''"] HasSuffix_last [of l "''.orig.tar.xz''"]
    HasSuffix_last [of l "''.orig.tar.gz''"]
  by auto

lemma dsc_not_debian: "HasSuffix l ''.dsc'' \<Longrightarrow> \<not> isDebianLink l"
  unfolding isDebianLink_def
  using HasSuffix_last [of l "''.dsc''"] HasSuffix_last [of l "''.debian.tar.xz''"]
  by auto

lemma orig_not_debian: "isOrigLink l \<Longrightarrow> \<not> isDebianLink l"
proof
  assume o: "isOrigLink l" and d: "isDebianLink l"
  from d have dl: "suffix ''.debian.tar.xz'' l"
    by (simp add: isDebianLink_def HasSuffix_iff_suffix)
  from o have "suffix ''.orig.tar.xz'' l \<or> suffix ''.orig.tar.gz'' l"
    by (simp add: isOrigLink_def HasSuffix_iff_suffix)
  then show False
  proof
    assume ol: "suffix ''.orig.tar.xz'' l"
    have "suffix ''.orig.tar.xz'' ''.debian.tar.xz'' \<or> suffix ''.debian.tar.xz'' ''.orig.tar.xz''"
      using ol dl by (rule suffix_same_cases)
    then show False
      by (simp add: suffix_to_prefix)
  next
    assume ol: "suffix ''.orig.tar.gz'' l"
    have "suffix ''.orig.tar.gz'' ''.debian.tar.xz'' \<or> suffix ''.debian.tar.xz'' ''.orig.tar.gz''"
      using ol dl by (rule suffix_same_cases)
    then show False
      by (simp add: suffix_to_prefix)
  qed
qed

lemma fillFromLinks_append:
  "fillFromLinks d (xs @ ys) = fillFromLinks (fillFromLinks d xs) ys"
  by (induction xs arbitrary: d) simp_all

lemma fillFromLinks_Name [simp]: "Name (fillFromLinks d links) = Name d"
  by (induction links arbitrary: d) simp_all

lemma fillFromLinks_BaseURL [simp]: "BaseURL (fillFromLinks d links) = BaseURL d"
  by (induction links arbitrary: d) simp_all

lemma fillFromLinks_DscPath [simp]: "DscPath (fillFromLinks d links) = DscPath d"
  by (induction links arbitrary: d) simp_all

lemma fillFromLinks_DSC:
  "DSC (fillFromLinks d links) =
     (if filter isDscLink links = [] then DSC d else last (filter isDscLink links))"
  by (induction links arbitrary: d) (simp_all add: isDscLink_def)

lemma fillFromLinks_Orig:
  "Orig (fillFromLinks d links) =
     (if filter isOrigLink links = [] then Orig d else last (filter isOrigLink links))"
proof (induction links arbitrary: d)
  case Nil
  show ?case by simp
next
  case (Cons l links)
  show ?case
  proof (cases "HasSuffix l ''.dsc''")
    case True
    with dsc_not_orig have "\<not> isOrigLink l" by simp
    with True Cons show ?thesis by simp
  next
    case False
    with Cons show ?thesis
      by (simp add: isOrigLink_def)
  qed
qed

lemma fillFromLinks_Debian:
  "Debian (fillFromLinks d links) =
     (if filter isDebianLink links = [] then Debian d else last (filter isDebianLink links))"
proof (induction links arbitrary: d)
  case Nil
  show ?case by simp
next
  case (Cons l links)
  consider (dsc) "HasSuffix l ''.dsc''"
    | (orig) "\<not> HasSuffix l ''.dsc''" "isOrigLink l"
    | (rest) "\<not> HasSuffix l ''.dsc''" "\<not> isOrigLink l"
    by blast
  then show ?case
  proof cases
    case dsc
    with dsc_not_debian have "\<not> isDebianLink l" by simp
    with dsc Cons show ?thesis by simp
  next
    case orig
    with orig_not_debian have "\<not> isDebianLink l" by simp
    with orig Cons show ?thesis by (simp add: isOrigLink_def)
  next
    case rest
    with Cons show ?thesis
      by (simp add: isOrigLink_def isDebianLink_def)
  qed
qed

lemma filterLinks_loop_filter:
  "filterLinks_loop acc links =
     acc @ filter (\<lambda>l. isDscLink l \<or> isOrigLink l \<or> isDebianLink l) links"
  by (induction links arbitrary: acc) (simp_all add: isDscLink_def isOrigLink_def isDebianLink_def)

lemma filterLinks_filter:
  "filterLinks links = filter (\<lambda>l. isDscLink l \<or> isOrigLink l \<or> isDebianLink l) links"
  by (simp add: filterLinks_def filterLinks_loop_filter)

lemma fillFromLinks_single:
  "fillFromLinks d [l] =
     (if HasSuffix l ''.dsc'' then d\<lparr>DSC := l\<rparr>
      else if HasSuffix l ''.orig.tar.xz'' \<or> HasSuffix l ''.orig.tar.gz'' then d\<lparr>Orig := l\<rparr>
      else if HasSuffix l ''.debian.tar.xz'' then d\<lparr>Debian := l\<rparr>
      else d)"
  by simp

lemma fillFromLinks_filter_kept:
  "fillFromLinks d (filter (\<lambda>l. isDscLink l \<or> isOrigLink l \<or> isDebianLink l) links) =
     fillFromLinks d links"
  by (induction links arbitrary: d) (simp_all add: isDscLink_def isOrigLink_def isDebianLink_def)

section \<open>Properties of paths, downloads and the fetch loop\<close>

lemma take1_drop_eq: "take (Suc 0) (drop i s) = [c] \<longleftrightarrow> i < length s \<and> s ! i = c"
proof (cases "i < length s")
  case True
  then have "drop i s = s ! i # drop (Suc i) s"
    by (simp add: Cons_nth_drop_Suc)
  then show ?thesis using True by simp
next
  case False
  then show ?thesis by simp
qed

lemma sorted_le_last: "sorted xs \<Longrightarrow> (x::nat) \<in> set xs \<Longrightarrow> x \<le> last xs"
  by (induction xs) auto

lemma LastIndex_last:
  "LastIndex s substr =
     (if filter (\<lambda>i. take (length substr) (drop i s) = substr) [0..<Suc (length s)] = [] then - 1
      else int (last (filter (\<lambda>i. take (length substr) (drop i s) = substr) [0..<Suc (length s)])))"
proof -
  let ?js = "filter (\<lambda>i. take (length substr) (drop i s) = substr) [0..<Suc (length s)]"
  have "filter (\<lambda>i. take (length substr) (drop i s) = substr) (rev [0..<Suc (length s)]) = rev ?js"
    by (simp only: rev_filter)
  then have "LastIndex s substr = (case rev ?js of [] \<Rightarrow> - 1 | i # _ \<Rightarrow> int i)"
    by (simp only: LastIndex_def)
  also have "\<dots> = (if ?js = [] then - 1 else int (last ?js))"
    by (cases ?js rule: rev_cases) simp_all
  finally show ?thesis .
qed

lemma slash_positions:
  "filter (\<lambda>i. take (length ''/'') (drop i s) = ''/'') [0..<Suc (length s)] =
     filter (\<lambda>i. s ! i = CHR ''/'') [0..<length s]"
proof -
  have "filter (\<lambda>i. take (length ''/'') (drop i s) = ''/'') [0..<Suc (length s)] =
      filter (\<lambda>i. i < length s \<and> s ! i = CHR ''/'') [0..<Suc (length s)]"
    using take1_drop_eq [of _ s "CHR ''/''"] by simp
  also have "\<dots> = filter (\<lambda>i. i < length s \<and> s ! i = CHR ''/'') [0..<length s]"
    by simp
  also have "\<dots> = filter (\<lambda>i. s ! i = CHR ''/'') [0..<length s]"
    by (rule filter_cong) simp_all
  finally show ?thesis .
qed

lemma LastIndex_slash_none:
  "CHR ''/'' \<notin> set s \<Longrightarrow> LastIndex s ''/'' = - 1"
proof -
  assume no: "CHR ''/'' \<notin> set s"
  have "filter (\<lambda>i. s ! i = CHR ''/'') [0..<length s] = []"
    using no by (auto simp: filter_empty_conv in_set_conv_nth)
  then show ?thesis
    unfolding LastIndex_last slash_positions by simp
qed

lemma LastIndex_slash_some:
  assumes "CHR ''/'' \<in> set s"
  shows "\<exists>k<length s. LastIndex s ''/'' = int k \<and> s ! k = CHR ''/'' \<and>
           CHR ''/'' \<notin> set (drop (Suc k) s)"
proof -
  let ?js = "filter (\<lambda>i. s ! i = CHR ''/'') [0..<length s]"
  from assms obtain i where i: "i < length s" "s ! i = CHR ''/''"
    by (auto simp: in_set_conv_nth)
  then have ne: "?js \<noteq> []"
    by (auto simp: filter_empty_conv)
  let ?k = "last ?js"
  from ne have "?k \<in> set ?js" by (rule last_in_set)
  then have k: "?k < length s" "s ! ?k = CHR ''/''" by simp_all
  have li: "LastIndex s ''/'' = int ?k"
    unfolding LastIndex_last slash_positions using ne by simp
  have srt: "sorted ?js" by (rule sorted_wrt_filter) simp
  have after: "CHR ''/'' \<notin> set (drop (Suc ?k) s)"
  proof
    assume "CHR ''/'' \<in> set (drop (Suc ?k) s)"
    then obtain j where j: "j < length (drop (Suc ?k) s)" "drop (Suc ?k) s ! j = CHR ''/''"
      by (auto simp: in_set_conv_nth)
    then have jj: "Suc ?k + j < length s" "s ! (Suc ?k + j) = CHR ''/''"
      by simp_all
    define m where "m = Suc ?k + j"
    from jj have "m < length s" "s ! m = CHR ''/''"
      by (simp_all add: m_def)
    then have "m \<in> set ?js" by simp
    with srt have "m \<le> ?k" by (rule sorted_le_last)
    then show False by (simp add: m_def)
  qed
  from k li after show ?thesis by blast
qed

lemma downloadsOf_append: "downloadsOf (xs @ ys) = downloadsOf xs @ downloadsOf ys"
  by (induction xs rule: downloadsOf.induct) simp_all

lemma fetchesOf_append: "fetchesOf (xs @ ys) = fetchesOf xs @ fetchesOf ys"
  by (induction xs rule: fetchesOf.induct) simp_all

lemma commandsOf_append: "commandsOf (xs @ ys) = commandsOf xs @ commandsOf ys"
  by (induction xs rule: commandsOf.induct) simp_all

lemma commandsOf_LogPrint: "commandsOf (map LogPrint out) = []"
  by (induction out) simp_all

lemma buildPath_snd: "snd (buildPath lib u pkg) = pkg"
  by (simp add: buildPath_def FromSlash_def Let_def)

lemma buildPath_fst:
  "fst (buildPath lib u pkg) = pathJoin lib pkg (snd (Split (Path u)))"
  by (simp add: buildPath_def Split_def FromSlash_def Let_def)

section \<open>Properties of the file system calls\<close>

lemma names_Nil: "names [] = []"
  by (simp add: names_def)

lemma nodeAt_mono: "f \<subseteq>\<^sub>m f' \<Longrightarrow> nodeAt f k = Some n \<Longrightarrow> nodeAt f' k = Some n"
  by (auto simp: nodeAt_def map_le_def dom_def split: if_splits)

lemma walk_Found_node: "walk f k ns = Found k' n \<Longrightarrow> nodeAt f k' = Some n"
  by (induction ns arbitrary: k) (auto split: option.splits node.splits)

lemma walk_mono: "f \<subseteq>\<^sub>m f' \<Longrightarrow> walk f k ns = Found k' n \<Longrightarrow> walk f' k ns = Found k' n"
proof (induction ns arbitrary: k)
  case Nil
  then show ?case
    by (auto simp: nodeAt_mono split: option.splits)
next
  case (Cons a ns)
  from Cons.prems(2) have d: "nodeAt f k = Some Dir" and r: "walk f (step k a) ns = Found k' n"
    by (auto split: option.splits node.splits)
  from nodeAt_mono [OF Cons.prems(1) d] Cons.IH [OF Cons.prems(1) r] show ?case
    by simp
qed

lemma walk_mono_NotDir: "f \<subseteq>\<^sub>m f' \<Longrightarrow> walk f k ns = NotDir \<Longrightarrow> walk f' k ns = NotDir"
proof (induction ns arbitrary: k)
  case Nil
  then show ?case
    by (auto split: option.splits)
next
  case (Cons a ns)
  show ?case
  proof (cases "nodeAt f k")
    case None
    with Cons.prems(2) show ?thesis by simp
  next
    case (Some m)
    from nodeAt_mono [OF Cons.prems(1) Some] have m': "nodeAt f' k = Some m" .
    show ?thesis
    proof (cases m)
      case Dir
      with Some Cons.prems(2) have "walk f (step k a) ns = NotDir" by simp
      from Cons.IH [OF Cons.prems(1) this] m' Dir show ?thesis by simp
    next
      case (File b)
      with m' show ?thesis by simp
    qed
  qed
qed

lemma walk_append:
  "walk f k (xs @ ys) =
     (case walk f k xs of Found k' n \<Rightarrow> walk f k' ys | NoEnt \<Rightarrow> NoEnt | NotDir \<Rightarrow> NotDir)"
proof (induction xs arbitrary: k)
  case Nil
  show ?case
    by (cases ys) (simp_all split: option.splits)
next
  case (Cons a xs)
  then show ?case
    by (simp split: option.splits node.splits)
qed

lemma osStat_trace [simp]: "osStat (w\<lparr>trace := t\<rparr>) p = osStat w p"
  by (simp add: osStat_def start_def)

lemma target_trace [simp]: "target (w\<lparr>trace := t\<rparr>) p = target w p"
  by (simp add: target_def start_def Let_def)

lemma fileExists_trace [simp]: "fileExists p (w\<lparr>trace := t\<rparr>) = fileExists p w"
  by (simp add: fileExists_def)

lemma target_Some:
  assumes "target w p = Some k"
  shows "osStat w p =
           (case fs w k of
              None \<Rightarrow> NoEnt
            | Some n \<Rightarrow>
                (case n of
                   Dir \<Rightarrow> Found k Dir
                 | File b \<Rightarrow> if last p = CHR ''/'' then NotDir else Found k (File b)))"
    and "k \<noteq> []"
proof -
  let ?ns = "names p"
  from assms have ne: "?ns \<noteq> []" and nd: "last ?ns \<noteq> ''.''" "last ?ns \<noteq> ''..''"
    by (auto simp: target_def Let_def split: if_splits)
  from assms ne nd obtain k' where
    par: "walk (fs w) (start w p) (butlast ?ns) = Found k' Dir" and k: "k = k' @ [last ?ns]"
    by (auto simp: target_def Let_def split: stat.splits node.splits)
  from k show "k \<noteq> []" by simp
  from ne have p: "p \<noteq> []"
    by (auto simp: names_Nil)
  from walk_Found_node [OF par] have d: "nodeAt (fs w) k' = Some Dir" .
  have "walk (fs w) (start w p) ?ns = walk (fs w) (start w p) (butlast ?ns @ [last ?ns])"
    using ne by simp
  also have "\<dots> = walk (fs w) k' [last ?ns]"
    unfolding walk_append par by simp
  also have "\<dots> = (case fs w (k' @ [last ?ns]) of None \<Rightarrow> NoEnt
      | Some n \<Rightarrow> Found (k' @ [last ?ns]) n)"
    using d nd by (simp add: step_def nodeAt_def)
  finally have "walk (fs w) (start w p) ?ns =
      (case fs w (k' @ [last ?ns]) of None \<Rightarrow> NoEnt | Some n \<Rightarrow> Found (k' @ [last ?ns]) n)" .
  with p show "osStat w p =
           (case fs w k of
              None \<Rightarrow> NoEnt
            | Some n \<Rightarrow>
                (case n of
                   Dir \<Rightarrow> Found k Dir
                 | File b \<Rightarrow> if last p = CHR ''/'' then NotDir else Found k (File b)))"
    unfolding k by (simp add: osStat_def split: option.splits node.splits)
qed

lemma target_mono:
  assumes "target w p = Some k" and "fs w \<subseteq>\<^sub>m fs w'" and "cwd w' = cwd w"
  shows "target w' p = Some k"
proof -
  let ?ns = "names p"
  from assms(1) have ne: "?ns \<noteq> []" and nd: "last ?ns \<noteq> ''.''" "last ?ns \<noteq> ''..''"
    by (auto simp: target_def Let_def split: if_splits)
  from assms(1) ne nd obtain k' where
    par: "walk (fs w) (start w p) (butlast ?ns) = Found k' Dir" and k: "k = k' @ [last ?ns]"
    by (auto simp: target_def Let_def split: stat.splits node.splits)
  have st: "start w' p = start w p"
    using assms(3) by (simp add: start_def)
  from walk_mono [OF assms(2) par] ne nd k show ?thesis
    by (simp add: target_def Let_def st)
qed

lemma osStat_mono:
  assumes "fs w \<subseteq>\<^sub>m fs w'" and "cwd w' = cwd w" and "osStat w p \<noteq> NoEnt"
  shows "osStat w' p = osStat w p"
proof -
  from assms(3) have p: "p \<noteq> []"
    by (auto simp: osStat_def)
  have st: "start w' p = start w p"
    using assms(2) by (simp add: start_def)
  show ?thesis
  proof (cases "walk (fs w) (start w p) (names p)")
    case (Found k n)
    from walk_mono [OF assms(1) Found] Found p show ?thesis
      by (simp add: osStat_def st)
  next
    case NoEnt
    with assms(3) p show ?thesis
      by (simp add: osStat_def)
  next
    case NotDir
    from walk_mono_NotDir [OF assms(1) NotDir] NotDir p show ?thesis
      by (simp add: osStat_def st)
  qed
qed

lemma fileExists_mono:
  "fs w \<subseteq>\<^sub>m fs w' \<Longrightarrow> cwd w' = cwd w \<Longrightarrow> fileExists p w \<Longrightarrow> fileExists p w'"
  using osStat_mono [of w w' p] by (auto simp: fileExists_def split: stat.splits)

lemma osMkdir_Some:
  assumes "osMkdir e p w = Some w'"
  shows "\<exists>k. fs w k = None \<and> w' = w\<lparr>fs := (fs w)(k \<mapsto> Dir)\<rparr> \<and> osStat w p = NoEnt \<and>
           osStat w' p = Found k Dir"
proof -
  from assms obtain k where t: "target w p = Some k" and free: "fs w k = None"
    and w': "w' = w\<lparr>fs := (fs w)(k \<mapsto> Dir)\<rparr>"
    by (auto simp: osMkdir_def split: option.splits if_splits)
  have le: "fs w \<subseteq>\<^sub>m fs w'"
    using free by (auto simp: w' map_le_def)
  have c: "cwd w' = cwd w"
    by (simp add: w')
  from target_Some(1) [OF t] free have before: "osStat w p = NoEnt"
    by simp
  from target_Some(1) [OF target_mono [OF t le c]] have after: "osStat w' p = Found k Dir"
    by (simp add: w')
  from free w' before after show ?thesis
    by blast
qed

lemma osCreate_Some:
  assumes "osCreate e p w = Some (k, w')"
  shows "target w p = Some k" and "last p \<noteq> CHR ''/''" and "fs w k \<noteq> Some Dir"
    and "w' = w\<lparr>fs := (fs w)(k \<mapsto> File '''')\<rparr>"
  using assms by (auto simp: osCreate_def split: option.splits if_splits)

lemma osCreate_absent:
  assumes "osCreate e p w = Some (k, w')" and "\<not> fileExists p w"
  shows "fs w k = None"
proof (rule ccontr)
  assume "fs w k \<noteq> None"
  then obtain n where n: "fs w k = Some n" by auto
  from osCreate_Some [OF assms(1)] have t: "target w p = Some k" and sl: "last p \<noteq> CHR ''/''"
    and nd: "fs w k \<noteq> Some Dir"
    by simp_all
  from n nd obtain b where "fs w k = Some (File b)"
    by (cases n) simp_all
  with target_Some(1) [OF t] sl have "osStat w p = Found k (File b)"
    by simp
  with assms(2) show False
    by (simp add: fileExists_def)
qed

lemma osStat_created:
  assumes "target w p = Some k" and "last p \<noteq> CHR ''/''" and "fs w \<subseteq>\<^sub>m fs w'" and "cwd w' = cwd w"
    and "fs w' k = Some (File b)"
  shows "osStat w' p = Found k (File b)"
  using target_Some(1) [OF target_mono [OF assms(1,3,4)]] assms(2,5) by simp

section \<open>Properties of the download manager\<close>

lemma osMkdir_trace:
  "osMkdir e p (w\<lparr>trace := t\<rparr>) = map_option (\<lambda>w'. w'\<lparr>trace := t\<rparr>) (osMkdir e p w)"
  by (simp add: osMkdir_def split: option.splits)

lemma osCreate_trace:
  "osCreate e p (w\<lparr>trace := t\<rparr>) =
     map_option (\<lambda>(k, w'). (k, w'\<lparr>trace := t\<rparr>)) (osCreate e p w)"
  by (simp add: osCreate_def split: option.splits)

lemma ensureDirExists_trace:
  "ensureDirExists e dir (w\<lparr>trace := t\<rparr>) =
     (fst (ensureDirExists e dir w), (snd (ensureDirExists e dir w))\<lparr>trace := t\<rparr>)"
  by (simp add: ensureDirExists_def osMkdir_trace split: option.splits)

lemma ensureDirExists_cases:
  obtains (fails) "osStat w dir = NoEnt" "osMkdir e dir w = None"
      "ensureDirExists e dir w = (Inl (ErrMkdir dir), w)"
    | (made) k where "osStat w dir = NoEnt" "fs w k = None"
      "ensureDirExists e dir w = (Inr (), w\<lparr>fs := (fs w)(k \<mapsto> Dir)\<rparr>)"
      "osStat (w\<lparr>fs := (fs w)(k \<mapsto> Dir)\<rparr>) dir = Found k Dir"
    | (there) "osStat w dir \<noteq> NoEnt" "ensureDirExists e dir w = (Inr (), w)"
proof (cases "osStat w dir = NoEnt")
  case False
  then have "ensureDirExists e dir w = (Inr (), w)"
    by (simp add: ensureDirExists_def)
  with False show ?thesis by (rule there)
next
  case True
  show ?thesis
  proof (cases "osMkdir e dir w")
    case None
    with True have "ensureDirExists e dir w = (Inl (ErrMkdir dir), w)"
      by (simp add: ensureDirExists_def)
    with True None show ?thesis by (rule fails)
  next
    case (Some w')
    from osMkdir_Some [OF Some] obtain k where k: "fs w k = None"
      and w': "w' = w\<lparr>fs := (fs w)(k \<mapsto> Dir)\<rparr>" and after: "osStat w' dir = Found k Dir"
      by blast
    from True Some have "ensureDirExists e dir w = (Inr (), w\<lparr>fs := (fs w)(k \<mapsto> Dir)\<rparr>)"
      by (simp add: ensureDirExists_def w')
    with True k show ?thesis
      using after unfolding w' by (rule made)
  qed
qed

lemma ensureDirExists_snd:
  "fs w \<subseteq>\<^sub>m fs (snd (ensureDirExists e dir w))"
  "cwd (snd (ensureDirExists e dir w)) = cwd w"
  "trace (snd (ensureDirExists e dir w)) = trace w"
proof -
  show "fs w \<subseteq>\<^sub>m fs (snd (ensureDirExists e dir w))"
  proof (cases rule: ensureDirExists_cases [of w dir e])
    case (made k)
    then show ?thesis by (auto simp: map_le_def)
  qed simp_all
  show "cwd (snd (ensureDirExists e dir w)) = cwd w"
    by (cases rule: ensureDirExists_cases [of w dir e]) simp_all
  show "trace (snd (ensureDirExists e dir w)) = trace w"
    by (cases rule: ensureDirExists_cases [of w dir e]) simp_all
qed

lemma ensureDirExists_fst:
  "fst (ensureDirExists e dir w) = Inr () \<or> fst (ensureDirExists e dir w) = Inl (ErrMkdir dir)"
  by (cases rule: ensureDirExists_cases [of w dir e]) simp_all

lemma ensureDirExists_there:
  "fst (ensureDirExists e dir w) = Inr () \<Longrightarrow> osStat (snd (ensureDirExists e dir w)) dir \<noteq> NoEnt"
  by (cases rule: ensureDirExists_cases [of w dir e]) simp_all

lemma ensureDirExists_idle:
  "osStat w dir \<noteq> NoEnt \<Longrightarrow> ensureDirExists e dir w = (Inr (), w)"
  by (simp add: ensureDirExists_def)

lemma download_unfold:
  "download lib e u pkg w =
     (let path = fst (buildPath lib u pkg);
          w2 = snd (ensureDirExists e pkg w);
          t = trace w @ [LogDownloading u path]
      in if fst (ensureDirExists e pkg w) \<noteq> Inr () then (Inl (ErrMkdir pkg), w\<lparr>trace := t\<rparr>)
         else if fileExists path w2 then (Inr path, w2\<lparr>trace := t @ [LogSkipping]\<rparr>)
         else
           (case osCreate e path w2 of
              None \<Rightarrow> (Inl (ErrCreateFile path), w2\<lparr>trace := t\<rparr>)
            | Some (k, w3) \<Rightarrow>
                (case httpGet e (urlString lib u) of
                   None \<Rightarrow>
                     (Inl (ErrDownload u), w3\<lparr>trace := t @ [HttpGet (urlString lib u)]\<rparr>)
                 | Some resp \<Rightarrow>
                     (if CopyErr resp then Inl (ErrCopy u path) else Inr path,
                      w3\<lparr>fs := (fs w3)(k \<mapsto> File (Body resp)),
                         trace := t @ [HttpGet (urlString lib u)]\<rparr>))))"
proof -
  obtain path where bp: "buildPath lib u pkg = (path, pkg)"
    using buildPath_snd [of lib u pkg] by (cases "buildPath lib u pkg") simp
  let ?t = "trace w @ [LogDownloading u path]"
  let ?w1 = "w\<lparr>trace := ?t\<rparr>"
  obtain r w2 where en: "ensureDirExists e pkg w = (r, w2)"
    by (cases "ensureDirExists e pkg w")
  have en1: "ensureDirExists e pkg ?w1 = (r, w2\<lparr>trace := ?t\<rparr>)"
    unfolding ensureDirExists_trace en by simp
  have dl: "download lib e u pkg w =
      (case ensureDirExists e pkg ?w1 of
         (Inl err, w2) \<Rightarrow> (Inl err, w2)
       | (Inr _, w2) \<Rightarrow>
           if fileExists path w2 then (Inr path, emit LogSkipping w2)
           else
             (case osCreate e path w2 of
                None \<Rightarrow> (Inl (ErrCreateFile path), w2)
              | Some (file, w3) \<Rightarrow>
                  let w4 = emit (HttpGet (urlString lib u)) w3
                  in case httpGet e (urlString lib u) of
                       None \<Rightarrow> (Inl (ErrDownload u), w4)
                     | Some resp \<Rightarrow>
                         let w5 = w4\<lparr>fs := (fs w4)(file \<mapsto> File (Body resp))\<rparr>
                         in if CopyErr resp then (Inl (ErrCopy u path), w5) else (Inr path, w5)))"
    unfolding download_def bp by (simp add: emit_def)
  show ?thesis
  proof (cases r)
    case (Inl err)
    with en ensureDirExists_fst [of e pkg w] have err: "err = ErrMkdir pkg"
      by simp
    from en Inl have w2: "w2 = w"
      by (cases rule: ensureDirExists_cases [of w pkg e]) simp_all
    show ?thesis
      unfolding dl en1 using Inl err w2 by (simp add: Let_def bp en)
  next
    case (Inr x)
    show ?thesis
    proof (cases "fileExists path w2")
      case True
      then show ?thesis
        unfolding dl en1 using Inr by (simp add: Let_def bp en emit_def)
    next
      case absent: False
      show ?thesis
      proof (cases "osCreate e path w2")
        case None
        with absent show ?thesis
          unfolding dl en1 using Inr by (simp add: Let_def bp en osCreate_trace)
      next
        case (Some kw)
        obtain k w3 where kw: "kw = (k, w3)" by (cases kw)
        show ?thesis
        proof (cases "httpGet e (urlString lib u)")
          case None
          with absent Some kw show ?thesis
            unfolding dl en1 using Inr by (simp add: Let_def bp en osCreate_trace emit_def)
        next
          case (Some resp)
          with absent \<open>osCreate e path w2 = Some kw\<close> kw show ?thesis
            unfolding dl en1 using Inr by (simp add: Let_def bp en osCreate_trace emit_def)
        qed
      qed
    qed
  qed
qed

lemma download_trace_downloads:
  "downloadsOf (trace (snd (download lib e u pkg w))) =
     downloadsOf (trace w) @ [(u, fst (buildPath lib u pkg))]"
  by (simp add: download_unfold Let_def downloadsOf_append split: option.splits prod.splits)

lemma download_returns_path:
  "download lib e u pkg w = (Inr p, w') \<Longrightarrow> p = fst (buildPath lib u pkg)"
  by (simp add: download_unfold Let_def split: if_splits option.splits prod.splits)

lemma download_trace_fetches:
  "fetchesOf (trace (snd (download lib e u pkg w))) =
     fetchesOf (trace w) @
     (if fst (ensureDirExists e pkg w) = Inr () \<and>
         \<not> fileExists (fst (buildPath lib u pkg)) (snd (ensureDirExists e pkg w)) \<and>
         osCreate e (fst (buildPath lib u pkg)) (snd (ensureDirExists e pkg w)) \<noteq> None
      then [urlString lib u] else [])"
  by (simp add: download_unfold Let_def fetchesOf_append ensureDirExists_snd
      split: option.splits prod.splits)

lemma download_cases:
  obtains
    (nodir) "ensureDirExists e pkg w = (Inl (ErrMkdir pkg), w)"
      "download lib e u pkg w =
         (Inl (ErrMkdir pkg),
          w\<lparr>trace := trace w @ [LogDownloading u (fst (buildPath lib u pkg))]\<rparr>)"
  | (skip) w2 where "ensureDirExists e pkg w = (Inr (), w2)"
      "fileExists (fst (buildPath lib u pkg)) w2"
      "download lib e u pkg w =
         (Inr (fst (buildPath lib u pkg)),
          w2\<lparr>trace := trace w @ [LogDownloading u (fst (buildPath lib u pkg)), LogSkipping]\<rparr>)"
  | (nocreate) w2 where "ensureDirExists e pkg w = (Inr (), w2)"
      "\<not> fileExists (fst (buildPath lib u pkg)) w2"
      "osCreate e (fst (buildPath lib u pkg)) w2 = None"
      "download lib e u pkg w =
         (Inl (ErrCreateFile (fst (buildPath lib u pkg))),
          w2\<lparr>trace := trace w @ [LogDownloading u (fst (buildPath lib u pkg))]\<rparr>)"
  | (noget) w2 k where "ensureDirExists e pkg w = (Inr (), w2)"
      "\<not> fileExists (fst (buildPath lib u pkg)) w2"
      "osCreate e (fst (buildPath lib u pkg)) w2 = Some (k, w2\<lparr>fs := (fs w2)(k \<mapsto> File '''')\<rparr>)"
      "fs w2 k = None"
      "httpGet e (urlString lib u) = None"
      "download lib e u pkg w =
         (Inl (ErrDownload u),
          w2\<lparr>fs := (fs w2)(k \<mapsto> File ''''),
             trace := trace w @
               [LogDownloading u (fst (buildPath lib u pkg)), HttpGet (urlString lib u)]\<rparr>)"
  | (got) w2 k resp where "ensureDirExists e pkg w = (Inr (), w2)"
      "\<not> fileExists (fst (buildPath lib u pkg)) w2"
      "osCreate e (fst (buildPath lib u pkg)) w2 = Some (k, w2\<lparr>fs := (fs w2)(k \<mapsto> File '''')\<rparr>)"
      "fs w2 k = None"
      "httpGet e (urlString lib u) = Some resp"
      "download lib e u pkg w =
         (if CopyErr resp then Inl (ErrCopy u (fst (buildPath lib u pkg)))
          else Inr (fst (buildPath lib u pkg)),
          w2\<lparr>fs := (fs w2)(k \<mapsto> File (Body resp)),
             trace := trace w @
               [LogDownloading u (fst (buildPath lib u pkg)), HttpGet (urlString lib u)]\<rparr>)"
proof -
  let ?path = "fst (buildPath lib u pkg)"
  obtain r w2 where en: "ensureDirExists e pkg w = (r, w2)"
    by (cases "ensureDirExists e pkg w")
  show ?thesis
  proof (cases r)
    case (Inl err)
    with en ensureDirExists_fst [of e pkg w] have err: "err = ErrMkdir pkg"
      by simp
    from en Inl have w2: "w2 = w"
      by (cases rule: ensureDirExists_cases [of w pkg e]) simp_all
    have a: "ensureDirExists e pkg w = (Inl (ErrMkdir pkg), w)"
      using en Inl err w2 by simp
    have "download lib e u pkg w = (Inl (ErrMkdir pkg), w\<lparr>trace := trace w @ [LogDownloading u ?path]\<rparr>)"
      unfolding download_unfold Let_def a by simp
    with a show ?thesis by (rule nodir)
  next
    case (Inr x)
    with en have a: "ensureDirExists e pkg w = (Inr (), w2)" by simp
    show ?thesis
    proof (cases "fileExists ?path w2")
      case True
      have "download lib e u pkg w =
          (Inr ?path, w2\<lparr>trace := trace w @ [LogDownloading u ?path, LogSkipping]\<rparr>)"
        unfolding download_unfold Let_def a using True by simp
      with a True show ?thesis by (rule skip)
    next
      case absent: False
      show ?thesis
      proof (cases "osCreate e ?path w2")
        case None
        have "download lib e u pkg w =
            (Inl (ErrCreateFile ?path), w2\<lparr>trace := trace w @ [LogDownloading u ?path]\<rparr>)"
          unfolding download_unfold Let_def a using absent None by simp
        with a absent None show ?thesis by (rule nocreate)
      next
        case (Some kw)
        obtain k w3 where kw: "kw = (k, w3)" by (cases kw)
        from Some kw have cr: "osCreate e ?path w2 = Some (k, w3)" by simp
        from osCreate_Some(4) [OF cr] have w3: "w3 = w2\<lparr>fs := (fs w2)(k \<mapsto> File '''')\<rparr>" .
        from osCreate_absent [OF cr absent] have free: "fs w2 k = None" .
        have cr': "osCreate e ?path w2 = Some (k, w2\<lparr>fs := (fs w2)(k \<mapsto> File '''')\<rparr>)"
          using cr w3 by simp
        show ?thesis
        proof (cases "httpGet e (urlString lib u)")
          case None
          have "download lib e u pkg w =
              (Inl (ErrDownload u),
               w2\<lparr>fs := (fs w2)(k \<mapsto> File ''''),
                  trace := trace w @ [LogDownloading u ?path, HttpGet (urlString lib u)]\<rparr>)"
            unfolding download_unfold Let_def a using absent cr' None by simp
          with a absent cr' free None show ?thesis by (rule noget)
        next
          case (Some resp)
          have "download lib e u pkg w =
              (if CopyErr resp then Inl (ErrCopy u ?path) else Inr ?path,
               w2\<lparr>fs := (fs w2)(k \<mapsto> File (Body resp)),
                  trace := trace w @ [LogDownloading u ?path, HttpGet (urlString lib u)]\<rparr>)"
            unfolding download_unfold Let_def a using absent cr' Some by simp
          with a absent cr' free Some show ?thesis by (rule got)
        qed
      qed
    qed
  qed
qed

lemma ensureDirExists_ok:
  assumes "ensureDirExists e dir w = (Inr (), w2)"
  shows "fs w \<subseteq>\<^sub>m fs w2" and "cwd w2 = cwd w" and "trace w2 = trace w"
    and "osStat w2 dir \<noteq> NoEnt"
  using ensureDirExists_snd [where w = w and e = e and dir = dir]
    ensureDirExists_there [where w = w and e = e and dir = dir] assms by simp_all

lemma map_le_upd_free: "f k = None \<Longrightarrow> g \<subseteq>\<^sub>m f \<Longrightarrow> g \<subseteq>\<^sub>m f(k \<mapsto> v)"
  by (auto simp: map_le_def dom_def)

lemma download_fs_le:
  "fs w \<subseteq>\<^sub>m fs (snd (download lib e u pkg w))"
  "cwd (snd (download lib e u pkg w)) = cwd w"
proof -
  show "fs w \<subseteq>\<^sub>m fs (snd (download lib e u pkg w))"
  proof (cases rule: download_cases [of e pkg w lib u])
    case nodir
    then show ?thesis by simp
  next
    case (skip w2)
    with ensureDirExists_ok(1) [OF skip(1)] show ?thesis by simp
  next
    case (nocreate w2)
    with ensureDirExists_ok(1) [OF nocreate(1)] show ?thesis by simp
  next
    case (noget w2 k)
    from map_le_upd_free [OF noget(4) ensureDirExists_ok(1) [OF noget(1)]] noget(6)
    show ?thesis by simp
  next
    case (got w2 k resp)
    from map_le_upd_free [OF got(4) ensureDirExists_ok(1) [OF got(1)]] got(6)
    show ?thesis by simp
  qed
  show "cwd (snd (download lib e u pkg w)) = cwd w"
  proof (cases rule: download_cases [of e pkg w lib u])
    case nodir
    then show ?thesis by simp
  next
    case (skip w2)
    with ensureDirExists_ok(2) [OF skip(1)] show ?thesis by simp
  next
    case (nocreate w2)
    with ensureDirExists_ok(2) [OF nocreate(1)] show ?thesis by simp
  next
    case (noget w2 k)
    with ensureDirExists_ok(2) [OF noget(1)] show ?thesis by simp
  next
    case (got w2 k resp)
    with ensureDirExists_ok(2) [OF got(1)] show ?thesis by simp
  qed
qed

lemma download_written:
  assumes en: "ensureDirExists e pkg w = (Inr (), w2)"
    and cr: "osCreate e path w2 = Some (k, w3)"
    and free: "fs w2 k = None"
  shows "osStat (w2\<lparr>fs := (fs w2)(k \<mapsto> File b), trace := t\<rparr>) path = Found k (File b)"
    and "osStat (w2\<lparr>fs := (fs w2)(k \<mapsto> File b), trace := t\<rparr>) pkg \<noteq> NoEnt"
proof -
  let ?w' = "w2\<lparr>fs := (fs w2)(k \<mapsto> File b), trace := t\<rparr>"
  have le: "fs w2 \<subseteq>\<^sub>m fs ?w'"
    using free by (auto simp: map_le_def)
  have c: "cwd ?w' = cwd w2"
    by simp
  have k: "fs ?w' k = Some (File b)"
    by simp
  from osStat_created [OF osCreate_Some(1) [OF cr] osCreate_Some(2) [OF cr] le c k]
  show "osStat ?w' path = Found k (File b)" .
  from osStat_mono [OF le c ensureDirExists_ok(4) [OF en]] ensureDirExists_ok(4) [OF en]
  show "osStat ?w' pkg \<noteq> NoEnt"
    by simp
qed

lemma download_success_exists:
  assumes "download lib e u pkg w = (Inr p, w1)"
  shows "p = fst (buildPath lib u pkg)" and "fileExists p w1" and "osStat w1 pkg \<noteq> NoEnt"
proof -
  let ?path = "fst (buildPath lib u pkg)"
  from assms show p: "p = ?path" by (rule download_returns_path)
  have "fileExists ?path w1 \<and> osStat w1 pkg \<noteq> NoEnt"
  proof (cases rule: download_cases [of e pkg w lib u])
    case nodir
    with assms show ?thesis by simp
  next
    case (skip w2)
    with assms ensureDirExists_ok(4) [OF skip(1)] show ?thesis by auto
  next
    case (nocreate w2)
    with assms show ?thesis by simp
  next
    case (noget w2 k)
    with assms show ?thesis by simp
  next
    case (got w2 k resp)
    from got(6) assms have w1: "w1 = w2\<lparr>fs := (fs w2)(k \<mapsto> File (Body resp)),
        trace := trace w @ [LogDownloading u ?path, HttpGet (urlString lib u)]\<rparr>"
      by simp
    from download_written [OF got(1) got(3) got(4), where b = "Body resp"] show ?thesis
      unfolding w1 by (simp add: fileExists_def)
  qed
  then show "fileExists p w1" and "osStat w1 pkg \<noteq> NoEnt"
    by (simp_all add: p)
qed

lemma download_there:
  assumes "osStat w pkg \<noteq> NoEnt" and "fileExists (fst (buildPath lib u pkg)) w"
  shows "download lib e u pkg w =
           (Inr (fst (buildPath lib u pkg)),
            w\<lparr>trace := trace w @ [LogDownloading u (fst (buildPath lib u pkg)), LogSkipping]\<rparr>)"
  unfolding download_unfold Let_def ensureDirExists_idle [OF assms(1)] using assms(2) by simp

lemma download_again:
  assumes "download lib e u pkg w = (Inr p, w')"
  shows "download lib e2 u pkg w' =
           (Inr p, w'\<lparr>trace := trace w' @ [LogDownloading u p, LogSkipping]\<rparr>)"
  using download_there [of w' pkg lib u e2] download_success_exists [OF assms] by simp

section \<open>Properties of the fetch loop and of extraction\<close>

lemma linkURL_DscPath: "linkURL lib (d\<lparr>DscPath := p\<rparr>) l = linkURL lib d l"
  by (simp add: linkURL_def split: sum.splits)

lemma fetch_loop_Cons_ok:
  assumes "fetch_loop lib e (l # links) d w = (Inr d', w')"
  obtains u p w1 where "linkURL lib d l = Inr u"
    and "download lib e u (Name d) w = (Inr p, w1)"
    and "fetch_loop lib e links (if l = DSC d then d\<lparr>DscPath := p\<rparr> else d) w1 = (Inr d', w')"
proof -
  from assms obtain u where u: "linkURL lib d l = Inr u"
    by (cases "linkURL lib d l") simp_all
  from assms u obtain p w1 where dl: "download lib e u (Name d) w = (Inr p, w1)"
    by (cases "download lib e u (Name d) w"; cases "fst (download lib e u (Name d) w)") simp_all
  from assms u dl
  have "fetch_loop lib e links (if l = DSC d then d\<lparr>DscPath := p\<rparr> else d) w1 = (Inr d', w')"
    by simp
  with u dl show ?thesis by (rule that)
qed

lemma fetch_loop_keeps:
  "fetch_loop lib e links d w = (Inr d', w') \<Longrightarrow>
     BaseURL d' = BaseURL d \<and> Name d' = Name d \<and> DSC d' = DSC d \<and> Orig d' = Orig d \<and>
     Debian d' = Debian d"
proof (induction links arbitrary: d w)
  case Nil
  then show ?case by simp
next
  case (Cons l links)
  from Cons.prems obtain u p w1 where
    rest: "fetch_loop lib e links (if l = DSC d then d\<lparr>DscPath := p\<rparr> else d) w1 = (Inr d', w')"
    by (rule fetch_loop_Cons_ok)
  from Cons.IH [OF rest] show ?case
    by (simp split: if_splits)
qed

lemma fetch_loop_downloads:
  "\<exists>n us gs. n \<le> length links \<and>
     map Inr us = map (linkURL lib d) (take n links) \<and>
     downloadsOf (trace (snd (fetch_loop lib e links d w))) =
       downloadsOf (trace w) @ map (\<lambda>u. (u, fst (buildPath lib u (Name d)))) us \<and>
     fetchesOf (trace (snd (fetch_loop lib e links d w))) = fetchesOf (trace w) @ gs \<and>
     subseq gs (map (urlString lib) us) \<and>
     (\<forall>d'. fst (fetch_loop lib e links d w) = Inr d' \<longrightarrow> n = length links)"
proof (induction links arbitrary: d w)
  case Nil
  show ?case by simp
next
  case (Cons l links)
  show ?case
  proof (cases "linkURL lib d l")
    case (Inl err)
    then show ?thesis
      by (intro exI [of _ 0] exI [of _ "[]"]) simp
  next
    case (Inr u)
    obtain r w1 where dl: "download lib e u (Name d) w = (r, w1)"
      by (cases "download lib e u (Name d) w")
    have tr: "downloadsOf (trace w1) = downloadsOf (trace w) @ [(u, fst (buildPath lib u (Name d)))]"
      using download_trace_downloads [of lib e u "Name d" w] dl by simp
    obtain g where g: "fetchesOf (trace w1) = fetchesOf (trace w) @ g"
      and gs: "g = [] \<or> g = [urlString lib u]"
      using download_trace_fetches [of lib e u "Name d" w] dl by (simp split: if_splits)
    show ?thesis
    proof (cases r)
      case (Inl err)
      from gs have "subseq g [urlString lib u]"
        by auto
      with Inr dl tr g Inl show ?thesis
        by (intro exI [of _ 1] exI [of _ "[u]"] exI [of _ g]) simp
    next
      case r: (Inr p)
      let ?d1 = "if l = DSC d then d\<lparr>DscPath := p\<rparr> else d"
      have lu: "linkURL lib ?d1 = linkURL lib d"
        by (simp add: fun_eq_iff linkURL_DscPath)
      have nm: "Name ?d1 = Name d" by simp
      from Cons.IH [of ?d1 w1] obtain n us hs where n: "n \<le> length links"
        and a: "map Inr us = map (linkURL lib ?d1) (take n links)"
        and b: "downloadsOf (trace (snd (fetch_loop lib e links ?d1 w1))) =
          downloadsOf (trace w1) @ map (\<lambda>u. (u, fst (buildPath lib u (Name ?d1)))) us"
        and f: "fetchesOf (trace (snd (fetch_loop lib e links ?d1 w1))) = fetchesOf (trace w1) @ hs"
        and s: "subseq hs (map (urlString lib) us)"
        and c: "\<forall>d'. fst (fetch_loop lib e links ?d1 w1) = Inr d' \<longrightarrow> n = length links"
        by blast
      have step: "fetch_loop lib e (l # links) d w = fetch_loop lib e links ?d1 w1"
        using Inr dl r by simp
      have sub: "subseq (g @ hs) (map (urlString lib) (u # us))"
      proof -
        from gs have "subseq g [urlString lib u]" by auto
        from list_emb_append_mono [OF this s] show ?thesis by simp
      qed
      show ?thesis
      proof (intro exI [of _ "Suc n"] exI [of _ "u # us"] exI [of _ "g @ hs"] conjI)
        show "Suc n \<le> length (l # links)" using n by simp
        show "map Inr (u # us) = map (linkURL lib d) (take (Suc n) (l # links))"
          using a Inr unfolding lu by simp
        show "downloadsOf (trace (snd (fetch_loop lib e (l # links) d w))) =
            downloadsOf (trace w) @ map (\<lambda>u. (u, fst (buildPath lib u (Name d)))) (u # us)"
          unfolding step b tr nm by simp
        show "fetchesOf (trace (snd (fetch_loop lib e (l # links) d w))) =
            fetchesOf (trace w) @ g @ hs"
          unfolding step f g by simp
        show "subseq (g @ hs) (map (urlString lib) (u # us))"
          by (rule sub)
        show "\<forall>d'. fst (fetch_loop lib e (l # links) d w) = Inr d' \<longrightarrow> Suc n = length (l # links)"
          unfolding step using c by simp
      qed
    qed
  qed
qed

lemma extract_commands:
  "runCmd e ''dpkg-source'' [''-x'', ''--no-check'', snd (Split (DscPath d))] (Name d) \<noteq> PipeFails \<Longrightarrow>
     commandsOf (trace (snd (extract e d w))) =
       commandsOf (trace w) @
       [(''dpkg-source'', [''-x'', ''--no-check'', snd (Split (DscPath d))], Name d)]"
  by (cases "runCmd e ''dpkg-source'' [''-x'', ''--no-check'', snd (Split (DscPath d))] (Name d)")
    (simp_all add: extract_def FromSlash_def Let_def emit_def commandsOf_append commandsOf_LogPrint)

lemma download_first_fetch:
  assumes "download lib e u pkg w = (Inr p, w1)"
  shows "fetchesOf (trace w1) =
           fetchesOf (trace w) @
           (if fileExists (fst (buildPath lib u pkg)) (snd (ensureDirExists e pkg w)) then []
            else [urlString lib u])"
proof -
  have "fetchesOf (trace w1) = fetchesOf (trace (snd (download lib e u pkg w)))"
    by (simp add: assms)
  also have "\<dots> = fetchesOf (trace w) @
      (if fileExists (fst (buildPath lib u pkg)) (snd (ensureDirExists e pkg w)) then []
       else [urlString lib u])"
  proof (cases rule: download_cases [of e pkg w lib u])
    case nodir
    with assms show ?thesis by simp
  next
    case (skip w2)
    then show ?thesis by (simp add: fetchesOf_append)
  next
    case (nocreate w2)
    with assms show ?thesis by simp
  next
    case (noget w2 k)
    with assms show ?thesis by simp
  next
    case (got w2 k resp)
    then show ?thesis by (simp add: fetchesOf_append)
  qed
  finally show ?thesis .
qed

lemma download_later_fetch:
  assumes "osStat w pkg \<noteq> NoEnt" and "download lib e u pkg w = (Inr p, w1)"
  shows "fetchesOf (trace w1) =
           fetchesOf (trace w) @
           (if fileExists (fst (buildPath lib u pkg)) w then [] else [urlString lib u])"
  using download_first_fetch [OF assms(2)] ensureDirExists_idle [OF assms(1), of e] by simp

lemma download_fetched:
  assumes "download lib e u pkg w = (Inr p, w1)"
    and "\<not> fileExists (fst (buildPath lib u pkg)) (snd (ensureDirExists e pkg w))"
  shows "\<exists>r k. httpGet e (urlString lib u) = Some r \<and> \<not> CopyErr r \<and>
           osStat w1 p = Found k (File (Body r))"
proof (cases rule: download_cases [of e pkg w lib u])
  case nodir
  with assms(1) show ?thesis by simp
next
  case (skip w2)
  with assms(2) show ?thesis by simp
next
  case (nocreate w2)
  with assms(1) show ?thesis by simp
next
  case (noget w2 k)
  with assms(1) show ?thesis by simp
next
  case (got w2 k resp)
  from got(6) assms(1) have ok: "\<not> CopyErr resp" and p: "p = fst (buildPath lib u pkg)"
    and w1: "w1 = w2\<lparr>fs := (fs w2)(k \<mapsto> File (Body resp)),
        trace := trace w @ [LogDownloading u (fst (buildPath lib u pkg)), HttpGet (urlString lib u)]\<rparr>"
    by (simp_all split: if_splits)
  from download_written(1) [OF got(1) got(3) got(4), where b = "Body resp"]
  have "osStat w1 p = Found k (File (Body resp))"
    unfolding w1 p by simp
  with got(5) ok show ?thesis by blast
qed

lemma download_fetched_later:
  assumes "osStat w pkg \<noteq> NoEnt" and "download lib e u pkg w = (Inr p, w1)"
    and "\<not> fileExists (fst (buildPath lib u pkg)) w"
  shows "\<exists>r k. httpGet e (urlString lib u) = Some r \<and> \<not> CopyErr r \<and>
           osStat w1 p = Found k (File (Body r))"
  using download_fetched [OF assms(2)] assms(3) ensureDirExists_idle [OF assms(1), of e] by simp

lemma download_keeps:
  assumes "download lib e u pkg w = (r, w1)" and "osStat w p = Found k n"
  shows "osStat w1 p = Found k n"
proof -
  from download_fs_le [where w = w and lib = lib and e = e and u = u and pkg = pkg] assms(1)
  have "fs w \<subseteq>\<^sub>m fs w1" and "cwd w1 = cwd w"
    by simp_all
  from osStat_mono [OF this, of p] assms(2) show ?thesis
    by simp
qed

section \<open>Claims about the classifier\<close>

text \<open>
  C1. For every href of the input list, \<^verbatim>\<open>fillFromLinks\<close> stores it in the
  description field if it ends with \<^verbatim>\<open>.dsc\<close>, in the original-source field if it
  ends with \<^verbatim>\<open>.orig.tar.xz\<close> or \<^verbatim>\<open>.orig.tar.gz\<close>, in the Debian-diff field
  if it ends with \<^verbatim>\<open>.debian.tar.xz\<close>, and in no field otherwise, whatever
  precedes it (\<open>xs\<close>) and follows it (\<open>ys\<close>) in the list. No href matches two
  rules. A list none of whose hrefs matches a rule leaves the struct as it was, and
  on the empty list a fresh struct keeps its three roles unset.
\<close>

theorem fillFromLinks_classifies:
  "(HasSuffix l ''.dsc'' \<longrightarrow>
      fillFromLinks d (xs @ l # ys) = fillFromLinks ((fillFromLinks d xs)\<lparr>DSC := l\<rparr>) ys) \<and>
   (HasSuffix l ''.orig.tar.xz'' \<or> HasSuffix l ''.orig.tar.gz'' \<longrightarrow>
      fillFromLinks d (xs @ l # ys) = fillFromLinks ((fillFromLinks d xs)\<lparr>Orig := l\<rparr>) ys) \<and>
   (HasSuffix l ''.debian.tar.xz'' \<longrightarrow>
      fillFromLinks d (xs @ l # ys) = fillFromLinks ((fillFromLinks d xs)\<lparr>Debian := l\<rparr>) ys) \<and>
   (\<not> HasSuffix l ''.dsc'' \<and> \<not> HasSuffix l ''.orig.tar.xz'' \<and> \<not> HasSuffix l ''.orig.tar.gz'' \<and>
    \<not> HasSuffix l ''.debian.tar.xz'' \<longrightarrow>
      fillFromLinks d (xs @ l # ys) = fillFromLinks (fillFromLinks d xs) ys) \<and>
   \<not> (HasSuffix l ''.dsc'' \<and> (HasSuffix l ''.orig.tar.xz'' \<or> HasSuffix l ''.orig.tar.gz'')) \<and>
   \<not> (HasSuffix l ''.dsc'' \<and> HasSuffix l ''.debian.tar.xz'') \<and>
   \<not> ((HasSuffix l ''.orig.tar.xz'' \<or> HasSuffix l ''.orig.tar.gz'') \<and>
       HasSuffix l ''.debian.tar.xz'') \<and>
   ((\<forall>k \<in> set links. \<not> HasSuffix k ''.dsc'' \<and> \<not> HasSuffix k ''.orig.tar.xz'' \<and>
        \<not> HasSuffix k ''.orig.tar.gz'' \<and> \<not> HasSuffix k ''.debian.tar.xz'') \<longrightarrow>
      fillFromLinks d links = d) \<and>
   fillFromLinks d [] = d \<and>
   DSC (fillFromLinks new_dpkgSrc []) = '''' \<and>
   Orig (fillFromLinks new_dpkgSrc []) = '''' \<and>
   Debian (fillFromLinks new_dpkgSrc []) = ''''"
proof -
  have ex1: "\<not> (HasSuffix l ''.dsc'' \<and> (HasSuffix l ''.orig.tar.xz'' \<or> HasSuffix l ''.orig.tar.gz''))"
    using dsc_not_orig [of l] by (auto simp: isOrigLink_def)
  have ex2: "\<not> (HasSuffix l ''.dsc'' \<and> HasSuffix l ''.debian.tar.xz'')"
    using dsc_not_debian [of l] by (auto simp: isDebianLink_def)
  have ex3: "\<not> ((HasSuffix l ''.orig.tar.xz'' \<or> HasSuffix l ''.orig.tar.gz'') \<and>
       HasSuffix l ''.debian.tar.xz'')"
    using orig_not_debian [of l] by (auto simp: isOrigLink_def isDebianLink_def)
  have step: "fillFromLinks d (xs @ l # ys) = fillFromLinks (fillFromLinks (fillFromLinks d xs) [l]) ys"
    using fillFromLinks_append [of d xs "l # ys"] by simp
  have dsc: "HasSuffix l ''.dsc'' \<longrightarrow>
      fillFromLinks d (xs @ l # ys) = fillFromLinks ((fillFromLinks d xs)\<lparr>DSC := l\<rparr>) ys"
    using step by simp
  have orig: "HasSuffix l ''.orig.tar.xz'' \<or> HasSuffix l ''.orig.tar.gz'' \<longrightarrow>
      fillFromLinks d (xs @ l # ys) = fillFromLinks ((fillFromLinks d xs)\<lparr>Orig := l\<rparr>) ys"
    using step ex1 by auto
  have deb: "HasSuffix l ''.debian.tar.xz'' \<longrightarrow>
      fillFromLinks d (xs @ l # ys) = fillFromLinks ((fillFromLinks d xs)\<lparr>Debian := l\<rparr>) ys"
    using step ex2 ex3 by auto
  have none: "\<not> HasSuffix l ''.dsc'' \<and> \<not> HasSuffix l ''.orig.tar.xz'' \<and>
      \<not> HasSuffix l ''.orig.tar.gz'' \<and> \<not> HasSuffix l ''.debian.tar.xz'' \<longrightarrow>
      fillFromLinks d (xs @ l # ys) = fillFromLinks (fillFromLinks d xs) ys"
    using step by simp
  have dropped: "(\<forall>k \<in> set links. \<not> HasSuffix k ''.dsc'' \<and> \<not> HasSuffix k ''.orig.tar.xz'' \<and>
        \<not> HasSuffix k ''.orig.tar.gz'' \<and> \<not> HasSuffix k ''.debian.tar.xz'') \<longrightarrow>
      fillFromLinks d links = d"
    by (induction links) simp_all
  have fresh: "DSC (fillFromLinks new_dpkgSrc []) = '''' \<and> Orig (fillFromLinks new_dpkgSrc []) = '''' \<and>
      Debian (fillFromLinks new_dpkgSrc []) = ''''"
    by (simp add: new_dpkgSrc_def)
  from dsc orig deb none ex1 ex2 ex3 dropped fresh show ?thesis
    by simp
qed

theorem fillFromLinks_classifies_witness:
  "HasSuffix ''foo_1.0.dsc'' ''.dsc'' \<and>
   fillFromLinks new_dpkgSrc ([''changelog''] @ ''foo_1.0.dsc'' # [''index.html'']) =
     new_dpkgSrc\<lparr>DSC := ''foo_1.0.dsc''\<rparr> \<and>
   HasSuffix ''foo_1.0.orig.tar.gz'' ''.orig.tar.gz'' \<and>
   fillFromLinks new_dpkgSrc ([''changelog''] @ ''foo_1.0.orig.tar.gz'' # [''index.html'']) =
     new_dpkgSrc\<lparr>Orig := ''foo_1.0.orig.tar.gz''\<rparr> \<and>
   HasSuffix ''foo_1.0.debian.tar.xz'' ''.debian.tar.xz'' \<and>
   fillFromLinks new_dpkgSrc ([''changelog''] @ ''foo_1.0.debian.tar.xz'' # [''index.html'']) =
     new_dpkgSrc\<lparr>Debian := ''foo_1.0.debian.tar.xz''\<rparr> \<and>
   \<not> HasSuffix ''changelog'' ''.dsc'' \<and> \<not> HasSuffix ''changelog'' ''.orig.tar.xz'' \<and>
   \<not> HasSuffix ''changelog'' ''.orig.tar.gz'' \<and> \<not> HasSuffix ''changelog'' ''.debian.tar.xz'' \<and>
   fillFromLinks new_dpkgSrc [''changelog'', ''index.html''] = new_dpkgSrc"
proof -
  let ?xs = "[''changelog'']" and ?ys = "[''index.html'']"
  let ?rest = "[''changelog'', ''index.html'']"
  note T1 = fillFromLinks_classifies [of "''foo_1.0.dsc''" new_dpkgSrc ?xs ?ys ?rest]
  note T2 = fillFromLinks_classifies [of "''foo_1.0.orig.tar.gz''" new_dpkgSrc ?xs ?ys ?rest]
  note T3 = fillFromLinks_classifies [of "''foo_1.0.debian.tar.xz''" new_dpkgSrc ?xs ?ys ?rest]
  have pre: "fillFromLinks new_dpkgSrc ?xs = new_dpkgSrc"
    by (simp add: HasSuffix_def)
  have post: "fillFromLinks d ?ys = d" for d
    by (simp add: HasSuffix_def)
  have s1: "HasSuffix ''foo_1.0.dsc'' ''.dsc''"
    by (simp add: HasSuffix_def)
  have s2': "HasSuffix ''foo_1.0.orig.tar.gz'' ''.orig.tar.xz'' \<or>
      HasSuffix ''foo_1.0.orig.tar.gz'' ''.orig.tar.gz''"
    by (simp add: HasSuffix_def)
  have s2g: "HasSuffix ''foo_1.0.orig.tar.gz'' ''.orig.tar.gz''"
    by (simp add: HasSuffix_def)
  have s3: "HasSuffix ''foo_1.0.debian.tar.xz'' ''.debian.tar.xz''"
    by (simp add: HasSuffix_def)
  have none: "\<forall>k \<in> set ?rest. \<not> HasSuffix k ''.dsc'' \<and>
      \<not> HasSuffix k ''.orig.tar.xz'' \<and> \<not> HasSuffix k ''.orig.tar.gz'' \<and>
      \<not> HasSuffix k ''.debian.tar.xz''"
    by (simp add: HasSuffix_def)
  have c1: "fillFromLinks new_dpkgSrc (?xs @ ''foo_1.0.dsc'' # ?ys) =
      new_dpkgSrc\<lparr>DSC := ''foo_1.0.dsc''\<rparr>"
    using T1 [THEN conjunct1, THEN mp, OF s1] unfolding pre post .
  have c2: "fillFromLinks new_dpkgSrc (?xs @ ''foo_1.0.orig.tar.gz'' # ?ys) =
      new_dpkgSrc\<lparr>Orig := ''foo_1.0.orig.tar.gz''\<rparr>"
    using T2 [THEN conjunct2, THEN conjunct1, THEN mp, OF s2'] unfolding pre post .
  have c3: "fillFromLinks new_dpkgSrc (?xs @ ''foo_1.0.debian.tar.xz'' # ?ys) =
      new_dpkgSrc\<lparr>Debian := ''foo_1.0.debian.tar.xz''\<rparr>"
    using T3 [THEN conjunct2, THEN conjunct2, THEN conjunct1, THEN mp, OF s3]
    unfolding pre post .
  have c4: "fillFromLinks new_dpkgSrc ?rest = new_dpkgSrc"
    using T1 [THEN conjunct2, THEN conjunct2, THEN conjunct2, THEN conjunct2, THEN conjunct2,
        THEN conjunct2, THEN conjunct2, THEN conjunct1, THEN mp, OF none] .
  have n1: "\<not> HasSuffix ''changelog'' ''.dsc''"
    and n2: "\<not> HasSuffix ''changelog'' ''.orig.tar.xz''"
    and n3: "\<not> HasSuffix ''changelog'' ''.orig.tar.gz''"
    and n4: "\<not> HasSuffix ''changelog'' ''.debian.tar.xz''"
    by (simp_all add: HasSuffix_def)
  from s1 c1 s2g c2 s3 c3 n1 n2 n3 n4 c4 show ?thesis
    by (intro conjI)
qed

text \<open>
  C3. When several hrefs of the list match the suffix rule of one role, the role
  holds the one that comes last in the list (stated for at least one match, which
  covers two or more); \<^verbatim>\<open>fillFromLinks\<close> returns a struct on every input, so
  there is no error to raise.
\<close>

theorem fillFromLinks_last_wins:
  "(filter (\<lambda>l. HasSuffix l ''.dsc'') links \<noteq> [] \<longrightarrow>
      DSC (fillFromLinks d links) = last (filter (\<lambda>l. HasSuffix l ''.dsc'') links)) \<and>
   (filter (\<lambda>l. HasSuffix l ''.orig.tar.xz'' \<or> HasSuffix l ''.orig.tar.gz'') links \<noteq> [] \<longrightarrow>
      Orig (fillFromLinks d links) =
        last (filter (\<lambda>l. HasSuffix l ''.orig.tar.xz'' \<or> HasSuffix l ''.orig.tar.gz'') links)) \<and>
   (filter (\<lambda>l. HasSuffix l ''.debian.tar.xz'') links \<noteq> [] \<longrightarrow>
      Debian (fillFromLinks d links) = last (filter (\<lambda>l. HasSuffix l ''.debian.tar.xz'') links))"
proof -
  have a: "isDscLink = (\<lambda>l. HasSuffix l ''.dsc'')"
    by (simp add: isDscLink_def fun_eq_iff)
  have b: "isOrigLink = (\<lambda>l. HasSuffix l ''.orig.tar.xz'' \<or> HasSuffix l ''.orig.tar.gz'')"
    by (simp add: isOrigLink_def fun_eq_iff)
  have c: "isDebianLink = (\<lambda>l. HasSuffix l ''.debian.tar.xz'')"
    by (simp add: isDebianLink_def fun_eq_iff)
  show ?thesis
    using fillFromLinks_DSC [of d links] fillFromLinks_Orig [of d links]
      fillFromLinks_Debian [of d links]
    unfolding a b c by simp
qed

theorem fillFromLinks_last_wins_witness:
  "filter (\<lambda>l. HasSuffix l ''.dsc'') [''a_1.dsc'', ''x'', ''a_2.dsc''] = [''a_1.dsc'', ''a_2.dsc''] \<and>
   DSC (fillFromLinks new_dpkgSrc [''a_1.dsc'', ''x'', ''a_2.dsc'']) = ''a_2.dsc'' \<and>
   filter (\<lambda>l. HasSuffix l ''.orig.tar.xz'' \<or> HasSuffix l ''.orig.tar.gz'')
     [''a.orig.tar.gz'', ''a.orig.tar.xz''] = [''a.orig.tar.gz'', ''a.orig.tar.xz''] \<and>
   Orig (fillFromLinks new_dpkgSrc [''a.orig.tar.gz'', ''a.orig.tar.xz'']) = ''a.orig.tar.xz'' \<and>
   filter (\<lambda>l. HasSuffix l ''.debian.tar.xz'') [''b.debian.tar.xz'', ''a.debian.tar.xz''] =
     [''b.debian.tar.xz'', ''a.debian.tar.xz''] \<and>
   Debian (fillFromLinks new_dpkgSrc [''b.debian.tar.xz'', ''a.debian.tar.xz'']) = ''a.debian.tar.xz''"
proof -
  have f1: "filter (\<lambda>l. HasSuffix l ''.dsc'') [''a_1.dsc'', ''x'', ''a_2.dsc''] =
      [''a_1.dsc'', ''a_2.dsc'']"
    by (simp add: HasSuffix_def)
  have f2: "filter (\<lambda>l. HasSuffix l ''.orig.tar.xz'' \<or> HasSuffix l ''.orig.tar.gz'')
      [''a.orig.tar.gz'', ''a.orig.tar.xz''] = [''a.orig.tar.gz'', ''a.orig.tar.xz'']"
    by (simp add: HasSuffix_def)
  have f3: "filter (\<lambda>l. HasSuffix l ''.debian.tar.xz'') [''b.debian.tar.xz'', ''a.debian.tar.xz''] =
      [''b.debian.tar.xz'', ''a.debian.tar.xz'']"
    by (simp add: HasSuffix_def)
  have c1: "DSC (fillFromLinks new_dpkgSrc [''a_1.dsc'', ''x'', ''a_2.dsc'']) = ''a_2.dsc''"
    using fillFromLinks_last_wins [of "[''a_1.dsc'', ''x'', ''a_2.dsc'']" new_dpkgSrc]
    unfolding f1 by simp
  have c2: "Orig (fillFromLinks new_dpkgSrc [''a.orig.tar.gz'', ''a.orig.tar.xz'']) = ''a.orig.tar.xz''"
    using fillFromLinks_last_wins [of "[''a.orig.tar.gz'', ''a.orig.tar.xz'']" new_dpkgSrc]
    unfolding f2 by simp
  have c3: "Debian (fillFromLinks new_dpkgSrc [''b.debian.tar.xz'', ''a.debian.tar.xz'']) =
      ''a.debian.tar.xz''"
    using fillFromLinks_last_wins [of "[''b.debian.tar.xz'', ''a.debian.tar.xz'']" new_dpkgSrc]
    unfolding f3 by simp
  from f1 f2 f3 c1 c2 c3 show ?thesis
    by blast
qed

text \<open>
  C10. The intermediate version's \<^verbatim>\<open>filterLinks\<close> keeps an href of the list
  exactly when the final version's \<^verbatim>\<open>fillFromLinks\<close> stores that href in one of
  the three fields, whatever the struct held before. It keeps the hrefs in order and
  with their repetitions, under the same four suffix tests, and classifying the
  filtered list gives the same struct as classifying the whole list.
\<close>

theorem filterLinks_agrees_with_fillFromLinks:
  "(l \<in> set (filterLinks links) \<longleftrightarrow>
      l \<in> set links \<and>
      (\<forall>d. DSC (fillFromLinks d [l]) = l \<or> Orig (fillFromLinks d [l]) = l \<or>
           Debian (fillFromLinks d [l]) = l)) \<and>
   filterLinks links =
     filter (\<lambda>l. HasSuffix l ''.dsc'' \<or> (HasSuffix l ''.orig.tar.xz'' \<or>
                 HasSuffix l ''.orig.tar.gz'') \<or> HasSuffix l ''.debian.tar.xz'') links \<and>
   fillFromLinks d0 (filterLinks links) = fillFromLinks d0 links"
proof -
  let ?keep = "\<lambda>l. HasSuffix l ''.dsc'' \<or> (HasSuffix l ''.orig.tar.xz'' \<or>
                 HasSuffix l ''.orig.tar.gz'') \<or> HasSuffix l ''.debian.tar.xz''"
  let ?held = "\<lambda>l. \<forall>d. DSC (fillFromLinks d [l]) = l \<or> Orig (fillFromLinks d [l]) = l \<or>
           Debian (fillFromLinks d [l]) = l"
  have flt: "filterLinks links = filter ?keep links"
    unfolding filterLinks_filter isDscLink_def isOrigLink_def isDebianLink_def ..
  have same: "fillFromLinks d0 (filterLinks links) = fillFromLinks d0 links"
    unfolding filterLinks_filter by (rule fillFromLinks_filter_kept)
  have fwd: "?held l" if "?keep l"
  proof
    fix d
    show "DSC (fillFromLinks d [l]) = l \<or> Orig (fillFromLinks d [l]) = l \<or>
           Debian (fillFromLinks d [l]) = l"
      using that unfolding fillFromLinks_single by (simp split: if_splits) blast
  qed
  have bwd: "?keep l" if all: "?held l"
  proof (rule ccontr)
    assume no: "\<not> ?keep l"
    let ?d = "new_dpkgSrc\<lparr>DSC := CHR ''x'' # l, Orig := CHR ''x'' # l, Debian := CHR ''x'' # l\<rparr>"
    from no have "fillFromLinks ?d [l] = ?d"
      unfolding fillFromLinks_single by simp
    with all [rule_format, of ?d] show False
      by simp
  qed
  have mem: "l \<in> set (filterLinks links) \<longleftrightarrow> l \<in> set links \<and> ?keep l"
    unfolding flt by simp
  have held: "l \<in> set (filterLinks links) \<longleftrightarrow> l \<in> set links \<and> ?held l"
  proof
    assume "l \<in> set (filterLinks links)"
    with mem have a: "l \<in> set links" and b: "?keep l" by blast+
    from b have "?held l" by (rule fwd)
    with a show "l \<in> set links \<and> ?held l" ..
  next
    assume "l \<in> set links \<and> ?held l"
    then have a: "l \<in> set links" and b: "?held l" by blast+
    from b have "?keep l" by (rule bwd)
    with a mem show "l \<in> set (filterLinks links)" by blast
  qed
  from held flt same show ?thesis
    by (intro conjI)
qed

theorem filterLinks_agrees_with_fillFromLinks_witness:
  "filterLinks [''a.dsc'', ''changelog'', ''a.orig.tar.gz'', ''a.debian.tar.xz'', ''b.dsc''] =
     [''a.dsc'', ''a.orig.tar.gz'', ''a.debian.tar.xz'', ''b.dsc''] \<and>
   ''a.orig.tar.gz'' \<in>
     set (filterLinks [''a.dsc'', ''changelog'', ''a.orig.tar.gz'', ''a.debian.tar.xz'', ''b.dsc'']) \<and>
   Orig (fillFromLinks new_dpkgSrc [''a.orig.tar.gz'']) = ''a.orig.tar.gz'' \<and>
   fillFromLinks new_dpkgSrc [''a.dsc'', ''a.orig.tar.gz'', ''a.debian.tar.xz'', ''b.dsc''] =
     fillFromLinks new_dpkgSrc
       [''a.dsc'', ''changelog'', ''a.orig.tar.gz'', ''a.debian.tar.xz'', ''b.dsc'']"
proof -
  let ?links = "[''a.dsc'', ''changelog'', ''a.orig.tar.gz'', ''a.debian.tar.xz'', ''b.dsc'']"
  note T = filterLinks_agrees_with_fillFromLinks [of "''a.orig.tar.gz''" ?links new_dpkgSrc]
  have flt: "filterLinks ?links = [''a.dsc'', ''a.orig.tar.gz'', ''a.debian.tar.xz'', ''b.dsc'']"
    unfolding T [THEN conjunct2, THEN conjunct1] by (simp add: HasSuffix_def)
  have same: "fillFromLinks new_dpkgSrc (filterLinks ?links) = fillFromLinks new_dpkgSrc ?links"
    by (rule T [THEN conjunct2, THEN conjunct2])
  have mem: "''a.orig.tar.gz'' \<in> set (filterLinks ?links)"
    unfolding flt by simp
  from mem T [THEN conjunct1]
  have "\<forall>d. DSC (fillFromLinks d [''a.orig.tar.gz'']) = ''a.orig.tar.gz'' \<or>
      Orig (fillFromLinks d [''a.orig.tar.gz'']) = ''a.orig.tar.gz'' \<or>
      Debian (fillFromLinks d [''a.orig.tar.gz'']) = ''a.orig.tar.gz''"
    by blast
  then have held: "Orig (fillFromLinks new_dpkgSrc [''a.orig.tar.gz'']) = ''a.orig.tar.gz''"
    by (simp add: HasSuffix_def new_dpkgSrc_def)
  from flt mem held same [unfolded flt] show ?thesis
    by (intro conjI)
qed

section \<open>Claims about paths and commands\<close>

text \<open>
  C6. For every artifact URL and package name, the file name that \<^verbatim>\<open>buildPath\<close>
  computes is the text after the last \<^verbatim>\<open>/\<close> of the URL's path (the whole path
  when it has no \<^verbatim>\<open>/\<close>): it holds no \<^verbatim>\<open>/\<close> and the path is some prefix,
  a \<^verbatim>\<open>/\<close>, and the name. The destination path is \<^verbatim>\<open>filepath.Join\<close> of the
  package-name directory and that file name, and the directory returned is the
  package name.
\<close>

theorem buildPath_file_name:
  "\<exists>name. buildPath lib u pkg = (pathJoin lib pkg name, pkg) \<and>
     name = snd (Split (Path u)) \<and>
     CHR ''/'' \<notin> set name \<and>
     (if CHR ''/'' \<in> set (Path u) then \<exists>pre. Path u = pre @ ''/'' @ name else name = Path u)"
proof -
  let ?name = "snd (Split (Path u))"
  have bp: "buildPath lib u pkg = (pathJoin lib pkg ?name, pkg)"
    using buildPath_fst [of lib u pkg] buildPath_snd [of lib u pkg]
    by (simp add: prod_eq_iff)
  have nm: "?name = drop (nat (LastIndex (Path u) ''/'' + 1)) (Path u)"
    by (simp add: Split_def Let_def)
  have "CHR ''/'' \<notin> set ?name \<and>
     (if CHR ''/'' \<in> set (Path u) then \<exists>pre. Path u = pre @ ''/'' @ ?name else ?name = Path u)"
  proof (cases "CHR ''/'' \<in> set (Path u)")
    case False
    then have "LastIndex (Path u) ''/'' = - 1" by (rule LastIndex_slash_none)
    with False show ?thesis by (simp add: nm)
  next
    case True
    then obtain k where k: "k < length (Path u)" "LastIndex (Path u) ''/'' = int k"
      "Path u ! k = CHR ''/''" "CHR ''/'' \<notin> set (drop (Suc k) (Path u))"
      using LastIndex_slash_some [of "Path u"] by blast
    have name: "?name = drop (Suc k) (Path u)"
      using k(2) by (simp add: nm nat_add_distrib)
    have "Path u = take k (Path u) @ Path u ! k # drop (Suc k) (Path u)"
      using k(1) by (rule id_take_nth_drop)
    then have "Path u = take k (Path u) @ ''/'' @ ?name"
      using k(3) name by simp
    then have "\<exists>pre. Path u = pre @ ''/'' @ ?name" ..
    with True k(4) name show ?thesis by simp
  qed
  with bp show ?thesis by blast
qed

text \<open>
  C8. The two commands without a package-name argument. Both return an error value
  and neither asks anything of the network; \<^verbatim>\<open>commandFetch\<close> names its command
  in the message, but \<^verbatim>\<open>commandBuild\<close> returns the message of \<^verbatim>\<open>fetch\<close>,
  which does not contain \<^verbatim>\<open>build\<close>.
\<close>

theorem missing_package_name:
  "commandBuild [] w = (Inr (Some ''fetch: no package name provided''), emit (LogPrint ''build'') w) \<and>
   \<not> Contains ''fetch: no package name provided'' ''build'' \<and>
   fetchesOf (trace (snd (commandBuild [] w))) = fetchesOf (trace w) \<and>
   commandFetch lib e [] w = (Inr (Some ''fetch: no package name provided''), w) \<and>
   Contains ''fetch: no package name provided'' ''fetch''"
proof -
  have b: "commandBuild [] w =
      (Inr (Some ''fetch: no package name provided''), emit (LogPrint ''build'') w)"
    by (simp add: commandBuild_def validateArgs_def)
  have nb: "\<not> Contains ''fetch: no package name provided'' ''build''"
    by simp
  have quiet: "fetchesOf (trace (snd (commandBuild [] w))) = fetchesOf (trace w)"
    unfolding b by (simp add: emit_def fetchesOf_append)
  have f: "commandFetch lib e [] w = (Inr (Some ''fetch: no package name provided''), w)"
    by (simp add: commandFetch_def validateArgs_def)
  have cf: "Contains ''fetch: no package name provided'' ''fetch''"
    by simp
  from b nb quiet f cf show ?thesis by (intro conjI)
qed


section \<open>Claims about downloading, fetching and extracting\<close>

text \<open>
  C4, as amended. If the destination path exists and the package directory is there
  or can be made (\<^verbatim>\<open>ensureDirExists\<close> returns), \<^verbatim>\<open>download\<close> asks nothing of the
  network, returns the path and leaves what the path names as it is; it changes
  nothing but what \<^verbatim>\<open>ensureDirExists\<close> did. Consequently, once a call has
  returned a path, a second call for the same URL and package name, on whatever
  machine, returns the same path, fetches nothing and leaves the file system as it
  is: the two calls together fetch at most once, and exactly once when the
  destination did not exist at the check of the first call, that is, once the
  package directory had been ensured.
\<close>

theorem download_skips_existing:
  assumes path: "path = fst (buildPath lib u pkg)"
  shows "(fileExists path w \<and> fst (ensureDirExists e pkg w) = Inr () \<longrightarrow>
            fst (download lib e u pkg w) = Inr path \<and>
            fetchesOf (trace (snd (download lib e u pkg w))) = fetchesOf (trace w) \<and>
            osStat (snd (download lib e u pkg w)) path = osStat w path \<and>
            fs (snd (download lib e u pkg w)) = ensured e pkg w) \<and>
         (\<forall>p w1. download lib e u pkg w = (Inr p, w1) \<longrightarrow>
            p = path \<and>
            fetchesOf (trace w1) =
              fetchesOf (trace w) @
              (if fileExists path (snd (ensureDirExists e pkg w)) then [] else [urlString lib u]) \<and>
            (\<forall>e2. fst (download lib e2 u pkg w1) = Inr path \<and>
                  fetchesOf (trace (snd (download lib e2 u pkg w1))) = fetchesOf (trace w1) \<and>
                  fs (snd (download lib e2 u pkg w1)) = fs w1))"
proof (intro conjI impI allI)
  let ?w2 = "snd (ensureDirExists e pkg w)"
  assume a: "fileExists path w \<and> fst (ensureDirExists e pkg w) = Inr ()"
  then have ex: "fileExists path w" and en: "ensureDirExists e pkg w = (Inr (), ?w2)"
    by (simp_all add: prod_eq_iff)
  from ex have found: "osStat w path \<noteq> NoEnt"
    by (auto simp: fileExists_def)
  from fileExists_mono [OF ensureDirExists_ok(1,2) [OF en] ex] have ex2: "fileExists path ?w2" .
  have dl: "download lib e u pkg w =
      (Inr path, ?w2\<lparr>trace := trace w @ [LogDownloading u path, LogSkipping]\<rparr>)"
    unfolding download_unfold Let_def path [symmetric] using a ex2 by simp
  show "fst (download lib e u pkg w) = Inr path"
    unfolding dl by simp
  show "fetchesOf (trace (snd (download lib e u pkg w))) = fetchesOf (trace w)"
    unfolding dl by (simp add: fetchesOf_append)
  show "osStat (snd (download lib e u pkg w)) path = osStat w path"
    unfolding dl using osStat_mono [OF ensureDirExists_ok(1,2) [OF en] found] by simp
  show "fs (snd (download lib e u pkg w)) = ensured e pkg w"
    unfolding dl by (simp add: ensured_def)
next
  fix p w1
  assume r: "download lib e u pkg w = (Inr p, w1)"
  then show p: "p = path"
    unfolding path by (rule download_returns_path)
  from download_first_fetch [OF r]
  show "fetchesOf (trace w1) =
      fetchesOf (trace w) @
      (if fileExists path (snd (ensureDirExists e pkg w)) then [] else [urlString lib u])"
    unfolding path .
  fix e2
  have again: "download lib e2 u pkg w1 =
      (Inr p, w1\<lparr>trace := trace w1 @ [LogDownloading u p, LogSkipping]\<rparr>)"
    using r by (rule download_again)
  show "fst (download lib e2 u pkg w1) = Inr path"
    unfolding again using p by simp
  show "fetchesOf (trace (snd (download lib e2 u pkg w1))) = fetchesOf (trace w1)"
    unfolding again by (simp add: fetchesOf_append)
  show "fs (snd (download lib e2 u pkg w1)) = fs w1"
    unfolding again by simp
qed

theorem download_skips_existing_witness:
  "fst (download exampleLib goodEnv exampleDscURL ''foo'' emptyWorld) = Inr ''foo/foo_1.0.dsc'' \<and>
   fetchesOf (trace (snd (download exampleLib goodEnv exampleDscURL ''foo'' emptyWorld))) =
     [''https://packages.debian.org/buster/foo_1.0.dsc''] \<and>
   fs (snd (download exampleLib goodEnv exampleDscURL ''foo'' emptyWorld))
      [''foo'', ''foo_1.0.dsc''] = Some (File ''data'') \<and>
   fst (download exampleLib offlineEnv exampleDscURL ''foo''
         (snd (download exampleLib goodEnv exampleDscURL ''foo'' emptyWorld))) =
     Inr ''foo/foo_1.0.dsc'' \<and>
   fetchesOf (trace (snd (download exampleLib offlineEnv exampleDscURL ''foo''
         (snd (download exampleLib goodEnv exampleDscURL ''foo'' emptyWorld))))) =
     [''https://packages.debian.org/buster/foo_1.0.dsc''] \<and>
   fs (snd (download exampleLib offlineEnv exampleDscURL ''foo''
         (snd (download exampleLib goodEnv exampleDscURL ''foo'' emptyWorld))))
      [''foo'', ''foo_1.0.dsc''] = Some (File ''data'') \<and>
   fst (download exampleLib goodEnv exampleBase ''foo/'' emptyWorld) = Inr ''foo'' \<and>
   fetchesOf (trace (snd (download exampleLib goodEnv exampleBase ''foo/'' emptyWorld))) = [] \<and>
   fs (snd (download exampleLib goodEnv exampleBase ''foo/'' emptyWorld)) [''foo''] = Some Dir"
proof -
  let ?path = "''foo/foo_1.0.dsc''"
  let ?w1 = "snd (download exampleLib goodEnv exampleDscURL ''foo'' emptyWorld)"
  let ?v1 = "snd (download exampleLib goodEnv exampleBase ''foo/'' emptyWorld)"
  have path: "?path = fst (buildPath exampleLib exampleDscURL ''foo'')"
    by code_simp
  have r: "fst (download exampleLib goodEnv exampleDscURL ''foo'' emptyWorld) = Inr ?path"
    by code_simp
  then have first: "download exampleLib goodEnv exampleDscURL ''foo'' emptyWorld = (Inr ?path, ?w1)"
    by (simp add: prod_eq_iff)
  have filed: "fs ?w1 [''foo'', ''foo_1.0.dsc''] = Some (File ''data'')"
    by code_simp
  have absent: "\<not> fileExists ?path (snd (ensureDirExists goodEnv ''foo'' emptyWorld))"
    by code_simp
  have str: "urlString exampleLib exampleDscURL = ''https://packages.debian.org/buster/foo_1.0.dsc''"
    by code_simp
  from download_skips_existing [OF path, of emptyWorld goodEnv, THEN conjunct2, rule_format, OF first]
  have f1: "fetchesOf (trace ?w1) =
      fetchesOf (trace emptyWorld) @
      (if fileExists ?path (snd (ensureDirExists goodEnv ''foo'' emptyWorld)) then []
       else [urlString exampleLib exampleDscURL])"
    by blast
  then have f1': "fetchesOf (trace ?w1) = [''https://packages.debian.org/buster/foo_1.0.dsc'']"
    using absent str by (simp add: emptyWorld_def)
  have pre: "fileExists ?path ?w1 \<and> fst (ensureDirExists offlineEnv ''foo'' ?w1) = Inr ()"
    by code_simp
  from download_skips_existing [OF path, of ?w1 offlineEnv, THEN conjunct1, THEN mp, OF pre]
  have again: "fst (download exampleLib offlineEnv exampleDscURL ''foo'' ?w1) = Inr ?path"
    "fetchesOf (trace (snd (download exampleLib offlineEnv exampleDscURL ''foo'' ?w1))) =
       fetchesOf (trace ?w1)"
    "fs (snd (download exampleLib offlineEnv exampleDscURL ''foo'' ?w1)) = ensured offlineEnv ''foo'' ?w1"
    by blast+
  have kept: "ensured offlineEnv ''foo'' ?w1 [''foo'', ''foo_1.0.dsc''] = Some (File ''data'')"
    by code_simp
  have path2: "''foo'' = fst (buildPath exampleLib exampleBase ''foo/'')"
    by code_simp
  have r2: "fst (download exampleLib goodEnv exampleBase ''foo/'' emptyWorld) = Inr ''foo''"
    by code_simp
  then have first2: "download exampleLib goodEnv exampleBase ''foo/'' emptyWorld = (Inr ''foo'', ?v1)"
    by (simp add: prod_eq_iff)
  have there2: "fileExists ''foo'' (snd (ensureDirExists goodEnv ''foo/'' emptyWorld))"
    by code_simp
  from download_skips_existing [OF path2, of emptyWorld goodEnv, THEN conjunct2, rule_format, OF first2]
  have "fetchesOf (trace ?v1) =
      fetchesOf (trace emptyWorld) @
      (if fileExists ''foo'' (snd (ensureDirExists goodEnv ''foo/'' emptyWorld)) then []
       else [urlString exampleLib exampleBase])"
    by blast
  then have f2: "fetchesOf (trace ?v1) = []"
    using there2 by (simp add: emptyWorld_def)
  have dir2: "fs ?v1 [''foo''] = Some Dir"
    by code_simp
  from r f1' filed again(1) again(2) [unfolded f1'] kept [folded again(3)] r2 f2 dir2
  show ?thesis
    by (intro conjI)
qed

text \<open>
  C4 as stated fails in both halves. For a URL whose path ends in \<^verbatim>\<open>/\<close> (here the
  base URL of the tool) the destination path is the package directory, which exists
  once \<^verbatim>\<open>ensureDirExists\<close> has run: from an empty file system, two calls of
  \<^verbatim>\<open>download\<close> return it and fetch nothing, not once. And with the empty
  package name the destination is a file of the working directory, but
  \<^verbatim>\<open>os.Stat\<close> and \<^verbatim>\<open>os.Mkdir\<close> both fail on the empty path: the file
  exists, and \<^verbatim>\<open>download\<close> ends the run instead of returning its path.
\<close>

theorem download_twice_counterexample:
  "fst (download exampleLib goodEnv exampleBase ''foo'' emptyWorld) = Inr ''foo'' \<and>
   fst (download exampleLib goodEnv exampleBase ''foo''
         (snd (download exampleLib goodEnv exampleBase ''foo'' emptyWorld))) = Inr ''foo'' \<and>
   fetchesOf (trace (snd (download exampleLib goodEnv exampleBase ''foo''
         (snd (download exampleLib goodEnv exampleBase ''foo'' emptyWorld))))) = [] \<and>
   fst (buildPath exampleLib exampleDscURL '''') = ''foo_1.0.dsc'' \<and>
   fileExists ''foo_1.0.dsc'' strayWorld \<and>
   fst (download exampleLib goodEnv exampleDscURL '''' strayWorld) = Inl (ErrMkdir '''')"
  by code_simp

text \<open>
  C9. The package directory is there or has been made, the destination does not
  exist and \<^verbatim>\<open>os.Create\<close> succeeds, then \<^verbatim>\<open>http.Get\<close> or \<^verbatim>\<open>io.Copy\<close>
  fails: \<^verbatim>\<open>download\<close> ends the run in a fatal error, the file it created stays
  (empty, or with the bytes copied so far), so the file system has changed; and a
  later call for the same URL and package name, on whatever machine, finds the file,
  fetches nothing and returns its path, leaving the incomplete file as it is.
\<close>

theorem download_failure_keeps_partial_file:
  assumes path: "path = fst (buildPath lib u pkg)"
    and dir: "fst (ensureDirExists e pkg w) = Inr ()"
    and absent: "\<not> fileExists path (snd (ensureDirExists e pkg w))"
    and created: "osCreate e path (snd (ensureDirExists e pkg w)) \<noteq> None"
    and fails: "httpGet e (urlString lib u) = None \<or>
                (\<exists>r. httpGet e (urlString lib u) = Some r \<and> CopyErr r)"
  shows "\<exists>err w' file. download lib e u pkg w = (Inl err, w') \<and>
           (err = ErrDownload u \<or> err = ErrCopy u path) \<and>
           osStat w' path =
             Found file
               (File (case httpGet e (urlString lib u) of None \<Rightarrow> '''' | Some r \<Rightarrow> Body r)) \<and>
           fs w' \<noteq> fs w \<and>
           (\<forall>e2. fst (download lib e2 u pkg w') = Inr path \<and>
                 fetchesOf (trace (snd (download lib e2 u pkg w'))) = fetchesOf (trace w') \<and>
                 fs (snd (download lib e2 u pkg w')) = fs w')"
proof -
  let ?data = "case httpGet e (urlString lib u) of None \<Rightarrow> '''' | Some r \<Rightarrow> Body r"
  let ?err = "case httpGet e (urlString lib u) of None \<Rightarrow> ErrDownload u | Some r \<Rightarrow> ErrCopy u path"
  let ?t = "trace w @ [LogDownloading u path, HttpGet (urlString lib u)]"
  obtain w2 where en: "ensureDirExists e pkg w = (Inr (), w2)"
    using dir by (cases "ensureDirExists e pkg w") simp
  from absent en have absent2: "\<not> fileExists path w2" by simp
  from created en obtain k w3 where cr: "osCreate e path w2 = Some (k, w3)"
    by auto
  from osCreate_Some(4) [OF cr] have w3: "w3 = w2\<lparr>fs := (fs w2)(k \<mapsto> File '''')\<rparr>" .
  from osCreate_absent [OF cr absent2] have free: "fs w2 k = None" .
  let ?w' = "w2\<lparr>fs := (fs w2)(k \<mapsto> File ?data), trace := ?t\<rparr>"
  have first: "download lib e u pkg w = (Inl ?err, ?w')"
    unfolding download_unfold Let_def path [symmetric] en
    using absent2 cr w3 fails by (auto split: option.splits)
  have err: "?err = ErrDownload u \<or> ?err = ErrCopy u path"
    by (simp split: option.split)
  from download_written [OF en cr free, where b = ?data and t = ?t]
  have there: "osStat ?w' path = Found k (File ?data)" and dirthere: "osStat ?w' pkg \<noteq> NoEnt"
    by simp_all
  have "fs w k = None"
  proof (rule ccontr)
    assume "fs w k \<noteq> None"
    then have "k \<in> dom (fs w)" by auto
    with ensureDirExists_ok(1) [OF en] have "fs w2 k = fs w k"
      by (simp add: map_le_def)
    with free \<open>fs w k \<noteq> None\<close> show False by simp
  qed
  then have changed: "fs ?w' \<noteq> fs w"
    by (auto simp: fun_eq_iff)
  have again: "fst (download lib e2 u pkg ?w') = Inr path \<and>
      fetchesOf (trace (snd (download lib e2 u pkg ?w'))) = fetchesOf (trace ?w') \<and>
      fs (snd (download lib e2 u pkg ?w')) = fs ?w'" for e2
  proof -
    have ex: "fileExists (fst (buildPath lib u pkg)) ?w'"
      using there by (simp add: fileExists_def path)
    from download_there [OF dirthere ex, of e2] show ?thesis
      by (simp add: fetchesOf_append path)
  qed
  from first err there changed again show ?thesis
    by blast
qed

theorem download_failure_keeps_partial_file_witness:
  "fst (download exampleLib offlineEnv exampleDscURL ''foo'' emptyWorld) =
     Inl (ErrDownload exampleDscURL) \<and>
   fs (snd (download exampleLib offlineEnv exampleDscURL ''foo'' emptyWorld))
      [''foo'', ''foo_1.0.dsc''] = Some (File '''') \<and>
   fst (download exampleLib goodEnv exampleDscURL ''foo''
         (snd (download exampleLib offlineEnv exampleDscURL ''foo'' emptyWorld))) =
     Inr ''foo/foo_1.0.dsc'' \<and>
   fs (snd (download exampleLib goodEnv exampleDscURL ''foo''
         (snd (download exampleLib offlineEnv exampleDscURL ''foo'' emptyWorld))))
      [''foo'', ''foo_1.0.dsc''] = Some (File '''') \<and>
   fst (download exampleLib brokenPipeEnv exampleDscURL ''foo'' emptyWorld) =
     Inl (ErrCopy exampleDscURL ''foo/foo_1.0.dsc'') \<and>
   fs (snd (download exampleLib goodEnv exampleDscURL ''foo''
         (snd (download exampleLib brokenPipeEnv exampleDscURL ''foo'' emptyWorld))))
      [''foo'', ''foo_1.0.dsc''] = Some (File ''da'')"
proof -
  let ?path = "''foo/foo_1.0.dsc''"
  have path: "?path = fst (buildPath exampleLib exampleDscURL ''foo'')"
    by code_simp
  have dir: "fst (ensureDirExists offlineEnv ''foo'' emptyWorld) = Inr ()"
    "fst (ensureDirExists brokenPipeEnv ''foo'' emptyWorld) = Inr ()"
    by code_simp+
  have absent: "\<not> fileExists ?path (snd (ensureDirExists offlineEnv ''foo'' emptyWorld))"
    "\<not> fileExists ?path (snd (ensureDirExists brokenPipeEnv ''foo'' emptyWorld))"
    by code_simp+
  have created: "osCreate offlineEnv ?path (snd (ensureDirExists offlineEnv ''foo'' emptyWorld)) \<noteq> None"
    "osCreate brokenPipeEnv ?path (snd (ensureDirExists brokenPipeEnv ''foo'' emptyWorld)) \<noteq> None"
    by code_simp+
  have off: "httpGet offlineEnv (urlString exampleLib exampleDscURL) = None \<or>
      (\<exists>r. httpGet offlineEnv (urlString exampleLib exampleDscURL) = Some r \<and> CopyErr r)"
    by (simp add: offlineEnv_def)
  have brk: "httpGet brokenPipeEnv (urlString exampleLib exampleDscURL) = None \<or>
      (\<exists>r. httpGet brokenPipeEnv (urlString exampleLib exampleDscURL) = Some r \<and> CopyErr r)"
    by (simp add: brokenPipeEnv_def)
  from download_failure_keeps_partial_file [OF path dir(1) absent(1) created(1) off]
  obtain err w' where o1: "download exampleLib offlineEnv exampleDscURL ''foo'' emptyWorld = (Inl err, w')"
    and o3: "\<forall>e2. fst (download exampleLib e2 exampleDscURL ''foo'' w') = Inr ?path \<and>
                 fetchesOf (trace (snd (download exampleLib e2 exampleDscURL ''foo'' w'))) =
                   fetchesOf (trace w') \<and>
                 fs (snd (download exampleLib e2 exampleDscURL ''foo'' w')) = fs w'"
    by blast
  from download_failure_keeps_partial_file [OF path dir(2) absent(2) created(2) brk]
  obtain err2 w2 where b1: "download exampleLib brokenPipeEnv exampleDscURL ''foo'' emptyWorld = (Inl err2, w2)"
    and b3: "\<forall>e2. fst (download exampleLib e2 exampleDscURL ''foo'' w2) = Inr ?path \<and>
                 fetchesOf (trace (snd (download exampleLib e2 exampleDscURL ''foo'' w2))) =
                   fetchesOf (trace w2) \<and>
                 fs (snd (download exampleLib e2 exampleDscURL ''foo'' w2)) = fs w2"
    by blast
  have e1: "fst (download exampleLib offlineEnv exampleDscURL ''foo'' emptyWorld) =
      Inl (ErrDownload exampleDscURL)"
    by code_simp
  have e2: "fst (download exampleLib brokenPipeEnv exampleDscURL ''foo'' emptyWorld) =
      Inl (ErrCopy exampleDscURL ?path)"
    by code_simp
  have o2: "fs (snd (download exampleLib offlineEnv exampleDscURL ''foo'' emptyWorld))
      [''foo'', ''foo_1.0.dsc''] = Some (File '''')"
    by code_simp
  have b2: "fs (snd (download exampleLib brokenPipeEnv exampleDscURL ''foo'' emptyWorld))
      [''foo'', ''foo_1.0.dsc''] = Some (File ''da'')"
    by code_simp
  from o3 [rule_format, of goodEnv] b3 [rule_format, of goodEnv] o2 b2 e1 e2
  show ?thesis
    unfolding o1 b1 snd_conv by simp
qed

text \<open>
  C5. An href that parses is used as parsed when it has a scheme, and is otherwise
  resolved by \<^verbatim>\<open>ResolveReference\<close> against \<^verbatim>\<open>BaseURL\<close> (a nil base panics).
  In \<^verbatim>\<open>fetch\<close>, the URLs handed to \<^verbatim>\<open>download\<close> are, in order, these URLs
  of the description, Debian-diff and original hrefs, all of them when \<^verbatim>\<open>fetch\<close>
  returns and the first \<open>n\<close> of them when it ends early; each is computed from the
  struct as it was at the start, so the base is always \<^verbatim>\<open>BaseURL\<close>, never the URL
  of an earlier download, and \<^verbatim>\<open>BaseURL\<close> is unchanged at the end.
\<close>

theorem fetch_resolves_against_BaseURL:
  "(urlParse lib l = Inr u \<longrightarrow>
      linkURL lib d l =
        (if IsAbs u then Inr u
         else case BaseURL d of
                None \<Rightarrow> Inl NilDereference
              | Some base \<Rightarrow> Inr (urlResolveReference lib base u))) \<and>
   (\<exists>n us. n \<le> 3 \<and>
      map Inr us = map (linkURL lib d) (take n [DSC d, Debian d, Orig d]) \<and>
      map fst (downloadsOf (trace (snd (fetch lib e d w)))) =
        map fst (downloadsOf (trace w)) @ us \<and>
      (\<forall>d'. fst (fetch lib e d w) = Inr d' \<longrightarrow> n = 3 \<and> BaseURL d' = BaseURL d))"
proof
  show "urlParse lib l = Inr u \<longrightarrow>
      linkURL lib d l =
        (if IsAbs u then Inr u
         else case BaseURL d of
                None \<Rightarrow> Inl NilDereference
              | Some base \<Rightarrow> Inr (urlResolveReference lib base u))"
    by (simp add: linkURL_def)
next
  let ?links = "[DSC d, Debian d, Orig d]"
  from fetch_loop_downloads [of ?links lib d e w]
  obtain n us where n: "n \<le> length ?links"
    and a: "map Inr us = map (linkURL lib d) (take n ?links)"
    and b: "downloadsOf (trace (snd (fetch_loop lib e ?links d w))) =
      downloadsOf (trace w) @ map (\<lambda>u. (u, fst (buildPath lib u (Name d)))) us"
    and c: "\<forall>d'. fst (fetch_loop lib e ?links d w) = Inr d' \<longrightarrow> n = length ?links"
    by blast
  have n3: "n \<le> 3" using n by simp
  have urls: "map fst (downloadsOf (trace (snd (fetch lib e d w)))) =
      map fst (downloadsOf (trace w)) @ us"
    unfolding fetch_def b by (simp add: comp_def)
  have fin: "\<forall>d'. fst (fetch lib e d w) = Inr d' \<longrightarrow> n = 3 \<and> BaseURL d' = BaseURL d"
  proof (intro allI impI)
    fix d'
    assume ok: "fst (fetch lib e d w) = Inr d'"
    then have "fetch_loop lib e ?links d w = (Inr d', snd (fetch_loop lib e ?links d w))"
      by (simp add: fetch_def prod_eq_iff)
    then have "BaseURL d' = BaseURL d"
      using fetch_loop_keeps by blast
    moreover from ok c have "n = 3"
      by (simp add: fetch_def)
    ultimately show "n = 3 \<and> BaseURL d' = BaseURL d" by simp
  qed
  from n3 a urls fin
  show "\<exists>n us. n \<le> 3 \<and>
      map Inr us = map (linkURL lib d) (take n [DSC d, Debian d, Orig d]) \<and>
      map fst (downloadsOf (trace (snd (fetch lib e d w)))) =
        map fst (downloadsOf (trace w)) @ us \<and>
      (\<forall>d'. fst (fetch lib e d w) = Inr d' \<longrightarrow> n = 3 \<and> BaseURL d' = BaseURL d)"
    by blast
qed

theorem fetch_resolves_against_BaseURL_witness:
  "linkURL exampleLib exampleSrc ''foo_1.0.dsc'' = Inr exampleDscURL \<and>
   linkURL exampleLib exampleSrc debianTestingBaseURL = Inr exampleBase \<and>
   map fst (downloadsOf (trace (snd (fetch exampleLib goodEnv exampleSrc emptyWorld)))) =
     [exampleDscURL, exampleDebianURL, exampleOrigURL]"
proof -
  let ?rel = "\<lparr>Scheme = '''', Host = '''', Path = ''foo_1.0.dsc'', RawQuery = '''', Fragment = ''''\<rparr>"
  have p1: "urlParse exampleLib ''foo_1.0.dsc'' = Inr ?rel"
    by code_simp
  have p2: "urlParse exampleLib debianTestingBaseURL = Inr exampleBase"
    by code_simp
  have v1: "(if IsAbs ?rel then Inr ?rel
      else case BaseURL exampleSrc of
             None \<Rightarrow> Inl NilDereference
           | Some base \<Rightarrow> Inr (urlResolveReference exampleLib base ?rel)) = Inr exampleDscURL"
    by code_simp
  have v2: "(if IsAbs exampleBase then Inr exampleBase
      else case BaseURL exampleSrc of
             None \<Rightarrow> Inl NilDereference
           | Some base \<Rightarrow> Inr (urlResolveReference exampleLib base exampleBase)) = Inr exampleBase"
    by code_simp
  have a: "linkURL exampleLib exampleSrc ''foo_1.0.dsc'' = Inr exampleDscURL"
    using fetch_resolves_against_BaseURL
      [of exampleLib "''foo_1.0.dsc''" ?rel exampleSrc goodEnv emptyWorld, THEN conjunct1, THEN mp, OF p1]
    unfolding v1 .
  have b: "linkURL exampleLib exampleSrc debianTestingBaseURL = Inr exampleBase"
    using fetch_resolves_against_BaseURL
      [of exampleLib debianTestingBaseURL exampleBase exampleSrc goodEnv emptyWorld,
        THEN conjunct1, THEN mp, OF p2]
    unfolding v2 .
  have ok: "fst (fetch exampleLib goodEnv exampleSrc emptyWorld) =
      Inr (exampleSrc\<lparr>DscPath := ''foo/foo_1.0.dsc''\<rparr>)"
    by code_simp
  have three: "map (linkURL exampleLib exampleSrc)
      (take 3 [DSC exampleSrc, Debian exampleSrc, Orig exampleSrc]) =
      [Inr exampleDscURL, Inr exampleDebianURL, Inr exampleOrigURL]"
    by code_simp
  from fetch_resolves_against_BaseURL
      [of exampleLib "''foo_1.0.dsc''" ?rel exampleSrc goodEnv emptyWorld, THEN conjunct2]
  obtain n us where
    us: "map Inr us =
      map (linkURL exampleLib exampleSrc) (take n [DSC exampleSrc, Debian exampleSrc, Orig exampleSrc])"
    and tr: "map fst (downloadsOf (trace (snd (fetch exampleLib goodEnv exampleSrc emptyWorld)))) =
      map fst (downloadsOf (trace emptyWorld)) @ us"
    and fin: "\<forall>d'. fst (fetch exampleLib goodEnv exampleSrc emptyWorld) = Inr d' \<longrightarrow>
      n = 3 \<and> BaseURL d' = BaseURL exampleSrc"
    by blast
  from fin ok have "n = 3" by blast
  with us three have "map Inr us =
      ([Inr exampleDscURL, Inr exampleDebianURL, Inr exampleOrigURL] :: (fatal + url) list)"
    by simp
  then have "us = [exampleDscURL, exampleDebianURL, exampleOrigURL]"
    by (auto simp: map_eq_Cons_conv)
  with tr have c: "map fst (downloadsOf (trace (snd (fetch exampleLib goodEnv exampleSrc emptyWorld)))) =
     [exampleDscURL, exampleDebianURL, exampleOrigURL]"
    by (simp add: emptyWorld_def)
  from a b c show ?thesis
    by (intro conjI)
qed

text \<open>
  C7. Whether it returns or ends the run, \<^verbatim>\<open>fetch\<close> enters \<^verbatim>\<open>download\<close> for
  the description file, the Debian-diff archive and the original-source archive in
  that order (for the first \<open>n\<close> of them when it ends early, for all three when it
  returns), each with a destination that is \<^verbatim>\<open>filepath.Join\<close> of the package
  name and the file name of the URL, and the requests it sends to the network are in
  that order too: they are a subsequence of the three URLs. When \<^verbatim>\<open>fetch\<close>
  returns, it is the three calls of \<^verbatim>\<open>download\<close> one after the other, each on
  the state that the one before left and each in the directory of the package name;
  a URL is requested exactly when its destination does not exist at that moment, so
  from a directory without the three files the requests are the three URLs in that
  order; a destination that was requested holds the bytes of the response to its
  URL; and afterwards the package path and the three destinations exist.
\<close>

theorem fetch_order:
  "(\<exists>n us gs. n \<le> 3 \<and>
      map Inr us = map (linkURL lib d) (take n [DSC d, Debian d, Orig d]) \<and>
      downloadsOf (trace (snd (fetch lib e d w))) =
        downloadsOf (trace w) @
        map (\<lambda>u. (u, pathJoin lib (Name d) (snd (Split (Path u))))) us \<and>
      fetchesOf (trace (snd (fetch lib e d w))) = fetchesOf (trace w) @ gs \<and>
      subseq gs (map (urlString lib) us) \<and>
      (\<forall>d'. fst (fetch lib e d w) = Inr d' \<longrightarrow> n = 3)) \<and>
   (\<forall>d' w'. fetch lib e d w = (Inr d', w') \<longrightarrow>
      (\<exists>u1 u2 u3 p1 p2 p3 w1 w2.
         linkURL lib d (DSC d) = Inr u1 \<and> linkURL lib d (Debian d) = Inr u2 \<and>
         linkURL lib d (Orig d) = Inr u3 \<and>
         p1 = pathJoin lib (Name d) (snd (Split (Path u1))) \<and>
         p2 = pathJoin lib (Name d) (snd (Split (Path u2))) \<and>
         p3 = pathJoin lib (Name d) (snd (Split (Path u3))) \<and>
         download lib e u1 (Name d) w = (Inr p1, w1) \<and>
         download lib e u2 (Name d) w1 = (Inr p2, w2) \<and>
         download lib e u3 (Name d) w2 = (Inr p3, w') \<and>
         downloadsOf (trace w') = downloadsOf (trace w) @ [(u1, p1), (u2, p2), (u3, p3)] \<and>
         fetchesOf (trace w') =
           fetchesOf (trace w) @
           (if fileExists p1 (snd (ensureDirExists e (Name d) w)) then [] else [urlString lib u1]) @
           (if fileExists p2 w1 then [] else [urlString lib u2]) @
           (if fileExists p3 w2 then [] else [urlString lib u3]) \<and>
         (\<not> fileExists p1 (snd (ensureDirExists e (Name d) w)) \<longrightarrow>
            (\<exists>r k. httpGet e (urlString lib u1) = Some r \<and> osStat w' p1 = Found k (File (Body r)))) \<and>
         (\<not> fileExists p2 w1 \<longrightarrow>
            (\<exists>r k. httpGet e (urlString lib u2) = Some r \<and> osStat w' p2 = Found k (File (Body r)))) \<and>
         (\<not> fileExists p3 w2 \<longrightarrow>
            (\<exists>r k. httpGet e (urlString lib u3) = Some r \<and> osStat w' p3 = Found k (File (Body r)))) \<and>
         osStat w' (Name d) \<noteq> NoEnt \<and>
         fileExists p1 w' \<and> fileExists p2 w' \<and> fileExists p3 w'))"
proof (intro conjI allI impI)
  let ?links = "[DSC d, Debian d, Orig d]"
  from fetch_loop_downloads [of ?links lib d e w]
  obtain n us gs where n: "n \<le> length ?links"
    and a: "map Inr us = map (linkURL lib d) (take n ?links)"
    and b: "downloadsOf (trace (snd (fetch_loop lib e ?links d w))) =
      downloadsOf (trace w) @ map (\<lambda>u. (u, fst (buildPath lib u (Name d)))) us"
    and f: "fetchesOf (trace (snd (fetch_loop lib e ?links d w))) = fetchesOf (trace w) @ gs"
    and s: "subseq gs (map (urlString lib) us)"
    and c: "\<forall>d'. fst (fetch_loop lib e ?links d w) = Inr d' \<longrightarrow> n = length ?links"
    by blast
  have n3: "n \<le> 3" using n by simp
  have b': "downloadsOf (trace (snd (fetch lib e d w))) =
      downloadsOf (trace w) @ map (\<lambda>u. (u, pathJoin lib (Name d) (snd (Split (Path u))))) us"
    unfolding fetch_def b by (simp add: buildPath_fst)
  have f': "fetchesOf (trace (snd (fetch lib e d w))) = fetchesOf (trace w) @ gs"
    unfolding fetch_def f ..
  have c': "\<forall>d'. fst (fetch lib e d w) = Inr d' \<longrightarrow> n = 3"
    using c by (simp add: fetch_def)
  from n3 a b' f' s c'
  show "\<exists>n us gs. n \<le> 3 \<and>
      map Inr us = map (linkURL lib d) (take n [DSC d, Debian d, Orig d]) \<and>
      downloadsOf (trace (snd (fetch lib e d w))) =
        downloadsOf (trace w) @
        map (\<lambda>u. (u, pathJoin lib (Name d) (snd (Split (Path u))))) us \<and>
      fetchesOf (trace (snd (fetch lib e d w))) = fetchesOf (trace w) @ gs \<and>
      subseq gs (map (urlString lib) us) \<and>
      (\<forall>d'. fst (fetch lib e d w) = Inr d' \<longrightarrow> n = 3)"
    by blast
next
  fix d' w'
  assume ok: "fetch lib e d w = (Inr d', w')"
  then have loop: "fetch_loop lib e [DSC d, Debian d, Orig d] d w = (Inr d', w')"
    by (simp add: fetch_def)
  from loop obtain u1 p1 w1 where l1: "linkURL lib d (DSC d) = Inr u1"
    and d1: "download lib e u1 (Name d) w = (Inr p1, w1)"
    and rest1: "fetch_loop lib e [Debian d, Orig d]
        (if DSC d = DSC d then d\<lparr>DscPath := p1\<rparr> else d) w1 = (Inr d', w')"
    by (rule fetch_loop_Cons_ok)
  let ?d1 = "d\<lparr>DscPath := p1\<rparr>"
  from rest1 have rest1': "fetch_loop lib e [Debian d, Orig d] ?d1 w1 = (Inr d', w')"
    by simp
  from rest1' obtain u2 p2 w2 where l2': "linkURL lib ?d1 (Debian d) = Inr u2"
    and d2': "download lib e u2 (Name ?d1) w1 = (Inr p2, w2)"
    and rest2: "fetch_loop lib e [Orig d]
        (if Debian d = DSC ?d1 then ?d1\<lparr>DscPath := p2\<rparr> else ?d1) w2 = (Inr d', w')"
    by (rule fetch_loop_Cons_ok)
  let ?d2 = "if Debian d = DSC ?d1 then ?d1\<lparr>DscPath := p2\<rparr> else ?d1"
  from l2' have l2: "linkURL lib d (Debian d) = Inr u2"
    by (simp add: linkURL_DscPath)
  from d2' have d2: "download lib e u2 (Name d) w1 = (Inr p2, w2)"
    by simp
  from rest2 obtain u3 p3 w3 where l3': "linkURL lib ?d2 (Orig d) = Inr u3"
    and d3': "download lib e u3 (Name ?d2) w2 = (Inr p3, w3)"
    and rest3: "fetch_loop lib e []
        (if Orig d = DSC ?d2 then ?d2\<lparr>DscPath := p3\<rparr> else ?d2) w3 = (Inr d', w')"
    by (rule fetch_loop_Cons_ok)
  from rest3 have w3: "w3 = w'" by simp
  from l3' have l3: "linkURL lib d (Orig d) = Inr u3"
    by (simp add: linkURL_DscPath split: if_splits)
  from d3' w3 have d3: "download lib e u3 (Name d) w2 = (Inr p3, w')"
    by (simp split: if_splits)
  note q1 = download_success_exists(1) [OF d1]
  note q2 = download_success_exists(1) [OF d2]
  note q3 = download_success_exists(1) [OF d3]
  from q1 have p1: "p1 = pathJoin lib (Name d) (snd (Split (Path u1)))"
    by (simp add: buildPath_fst)
  from q2 have p2: "p2 = pathJoin lib (Name d) (snd (Split (Path u2)))"
    by (simp add: buildPath_fst)
  from q3 have p3: "p3 = pathJoin lib (Name d) (snd (Split (Path u3)))"
    by (simp add: buildPath_fst)
  have t1: "downloadsOf (trace w1) = downloadsOf (trace w) @ [(u1, p1)]"
    using download_trace_downloads [of lib e u1 "Name d" w] d1 q1 by simp
  have t2: "downloadsOf (trace w2) = downloadsOf (trace w1) @ [(u2, p2)]"
    using download_trace_downloads [of lib e u2 "Name d" w1] d2 q2 by simp
  have t3: "downloadsOf (trace w') = downloadsOf (trace w2) @ [(u3, p3)]"
    using download_trace_downloads [of lib e u3 "Name d" w2] d3 q3 by simp
  have tr: "downloadsOf (trace w') = downloadsOf (trace w) @ [(u1, p1), (u2, p2), (u3, p3)]"
    unfolding t3 t2 t1 by simp
  note dir1 = download_success_exists(3) [OF d1]
  note dir2 = download_success_exists(3) [OF d2]
  have g1: "fetchesOf (trace w1) =
      fetchesOf (trace w) @
      (if fileExists p1 (snd (ensureDirExists e (Name d) w)) then [] else [urlString lib u1])"
    using download_first_fetch [OF d1] q1 by simp
  have g2: "fetchesOf (trace w2) =
      fetchesOf (trace w1) @ (if fileExists p2 w1 then [] else [urlString lib u2])"
    using download_later_fetch [OF dir1 d2] q2 by simp
  have g3: "fetchesOf (trace w') =
      fetchesOf (trace w2) @ (if fileExists p3 w2 then [] else [urlString lib u3])"
    using download_later_fetch [OF dir2 d3] q3 by simp
  have fe: "fetchesOf (trace w') =
      fetchesOf (trace w) @
      (if fileExists p1 (snd (ensureDirExists e (Name d) w)) then [] else [urlString lib u1]) @
      (if fileExists p2 w1 then [] else [urlString lib u2]) @
      (if fileExists p3 w2 then [] else [urlString lib u3])"
    unfolding g3 g2 g1 by simp
  have c1: "\<not> fileExists p1 (snd (ensureDirExists e (Name d) w)) \<longrightarrow>
      (\<exists>r k. httpGet e (urlString lib u1) = Some r \<and> osStat w' p1 = Found k (File (Body r)))"
  proof
    assume "\<not> fileExists p1 (snd (ensureDirExists e (Name d) w))"
    with download_fetched [OF d1] q1 obtain r k where r: "httpGet e (urlString lib u1) = Some r"
      and "osStat w1 p1 = Found k (File (Body r))"
      by auto
    from download_keeps [OF d3 download_keeps [OF d2 this(2)]] r
    show "\<exists>r k. httpGet e (urlString lib u1) = Some r \<and> osStat w' p1 = Found k (File (Body r))"
      by blast
  qed
  have c2: "\<not> fileExists p2 w1 \<longrightarrow>
      (\<exists>r k. httpGet e (urlString lib u2) = Some r \<and> osStat w' p2 = Found k (File (Body r)))"
  proof
    assume "\<not> fileExists p2 w1"
    with download_fetched_later [OF dir1 d2] q2 obtain r k where r: "httpGet e (urlString lib u2) = Some r"
      and "osStat w2 p2 = Found k (File (Body r))"
      by auto
    from download_keeps [OF d3 this(2)] r
    show "\<exists>r k. httpGet e (urlString lib u2) = Some r \<and> osStat w' p2 = Found k (File (Body r))"
      by blast
  qed
  have c3: "\<not> fileExists p3 w2 \<longrightarrow>
      (\<exists>r k. httpGet e (urlString lib u3) = Some r \<and> osStat w' p3 = Found k (File (Body r)))"
  proof
    assume "\<not> fileExists p3 w2"
    with download_fetched_later [OF dir2 d3] q3
    show "\<exists>r k. httpGet e (urlString lib u3) = Some r \<and> osStat w' p3 = Found k (File (Body r))"
      by auto
  qed
  have le2: "fs w1 \<subseteq>\<^sub>m fs w2" "cwd w2 = cwd w1"
    using download_fs_le [where w = w1 and lib = lib and e = e and u = u2 and pkg = "Name d"] d2
    by simp_all
  have le3: "fs w2 \<subseteq>\<^sub>m fs w'" "cwd w' = cwd w2"
    using download_fs_le [where w = w2 and lib = lib and e = e and u = u3 and pkg = "Name d"] d3
    by simp_all
  have x3: "fileExists p3 w'" and dirthere: "osStat w' (Name d) \<noteq> NoEnt"
    using download_success_exists(2,3) [OF d3] by simp_all
  have x2: "fileExists p2 w'"
    using fileExists_mono [OF le3 download_success_exists(2) [OF d2]] .
  have x1: "fileExists p1 w'"
    using fileExists_mono [OF le3 fileExists_mono [OF le2 download_success_exists(2) [OF d1]]] .
  from l1 l2 l3 p1 p2 p3 d1 d2 d3 tr fe c1 c2 c3 dirthere x1 x2 x3
  show "\<exists>u1 u2 u3 p1 p2 p3 w1 w2.
         linkURL lib d (DSC d) = Inr u1 \<and> linkURL lib d (Debian d) = Inr u2 \<and>
         linkURL lib d (Orig d) = Inr u3 \<and>
         p1 = pathJoin lib (Name d) (snd (Split (Path u1))) \<and>
         p2 = pathJoin lib (Name d) (snd (Split (Path u2))) \<and>
         p3 = pathJoin lib (Name d) (snd (Split (Path u3))) \<and>
         download lib e u1 (Name d) w = (Inr p1, w1) \<and>
         download lib e u2 (Name d) w1 = (Inr p2, w2) \<and>
         download lib e u3 (Name d) w2 = (Inr p3, w') \<and>
         downloadsOf (trace w') = downloadsOf (trace w) @ [(u1, p1), (u2, p2), (u3, p3)] \<and>
         fetchesOf (trace w') =
           fetchesOf (trace w) @
           (if fileExists p1 (snd (ensureDirExists e (Name d) w)) then [] else [urlString lib u1]) @
           (if fileExists p2 w1 then [] else [urlString lib u2]) @
           (if fileExists p3 w2 then [] else [urlString lib u3]) \<and>
         (\<not> fileExists p1 (snd (ensureDirExists e (Name d) w)) \<longrightarrow>
            (\<exists>r k. httpGet e (urlString lib u1) = Some r \<and> osStat w' p1 = Found k (File (Body r)))) \<and>
         (\<not> fileExists p2 w1 \<longrightarrow>
            (\<exists>r k. httpGet e (urlString lib u2) = Some r \<and> osStat w' p2 = Found k (File (Body r)))) \<and>
         (\<not> fileExists p3 w2 \<longrightarrow>
            (\<exists>r k. httpGet e (urlString lib u3) = Some r \<and> osStat w' p3 = Found k (File (Body r)))) \<and>
         osStat w' (Name d) \<noteq> NoEnt \<and>
         fileExists p1 w' \<and> fileExists p2 w' \<and> fileExists p3 w'"
    by blast
qed

theorem fetch_order_witness:
  "fst (fetch exampleLib goodEnv exampleSrc emptyWorld) =
     Inr (exampleSrc\<lparr>DscPath := ''foo/foo_1.0.dsc''\<rparr>) \<and>
   downloadsOf (trace (snd (fetch exampleLib goodEnv exampleSrc emptyWorld))) =
     [(exampleDscURL, ''foo/foo_1.0.dsc''),
      (exampleDebianURL, ''foo/foo_1.0.debian.tar.xz''),
      (exampleOrigURL, ''foo/foo_1.0.orig.tar.gz'')] \<and>
   fetchesOf (trace (snd (fetch exampleLib goodEnv exampleSrc emptyWorld))) =
     [''https://packages.debian.org/buster/foo_1.0.dsc'',
      ''https://packages.debian.org/buster/foo_1.0.debian.tar.xz'',
      ''https://packages.debian.org/buster/foo_1.0.orig.tar.gz''] \<and>
   fileExists ''foo/foo_1.0.dsc'' (snd (fetch exampleLib goodEnv exampleSrc emptyWorld)) \<and>
   fileExists ''foo/foo_1.0.debian.tar.xz'' (snd (fetch exampleLib goodEnv exampleSrc emptyWorld)) \<and>
   fileExists ''foo/foo_1.0.orig.tar.gz'' (snd (fetch exampleLib goodEnv exampleSrc emptyWorld)) \<and>
   osStat (snd (fetch exampleLib goodEnv exampleSrc emptyWorld)) ''foo/foo_1.0.dsc'' =
     Found [''foo'', ''foo_1.0.dsc''] (File ''data'') \<and>
   osStat (snd (fetch exampleLib goodEnv exampleSrc emptyWorld)) ''foo'' = Found [''foo''] Dir"
proof -
  let ?d' = "exampleSrc\<lparr>DscPath := ''foo/foo_1.0.dsc''\<rparr>"
  let ?w' = "snd (fetch exampleLib goodEnv exampleSrc emptyWorld)"
  have r: "fst (fetch exampleLib goodEnv exampleSrc emptyWorld) = Inr ?d'"
    by code_simp
  then have ok: "fetch exampleLib goodEnv exampleSrc emptyWorld = (Inr ?d', ?w')"
    by (simp add: prod_eq_iff)
  from fetch_order [of exampleLib exampleSrc goodEnv emptyWorld, THEN conjunct2, rule_format, OF ok]
  obtain u1 u2 u3 p1 p2 p3 w1 w2 where
    l: "linkURL exampleLib exampleSrc (DSC exampleSrc) = Inr u1"
      "linkURL exampleLib exampleSrc (Debian exampleSrc) = Inr u2"
      "linkURL exampleLib exampleSrc (Orig exampleSrc) = Inr u3"
    and p: "p1 = pathJoin exampleLib (Name exampleSrc) (snd (Split (Path u1)))"
      "p2 = pathJoin exampleLib (Name exampleSrc) (snd (Split (Path u2)))"
      "p3 = pathJoin exampleLib (Name exampleSrc) (snd (Split (Path u3)))"
    and d1: "download exampleLib goodEnv u1 (Name exampleSrc) emptyWorld = (Inr p1, w1)"
    and d2: "download exampleLib goodEnv u2 (Name exampleSrc) w1 = (Inr p2, w2)"
    and tr: "downloadsOf (trace ?w') =
       downloadsOf (trace emptyWorld) @ [(u1, p1), (u2, p2), (u3, p3)]"
    and fe: "fetchesOf (trace ?w') =
       fetchesOf (trace emptyWorld) @
       (if fileExists p1 (snd (ensureDirExists goodEnv (Name exampleSrc) emptyWorld)) then []
        else [urlString exampleLib u1]) @
       (if fileExists p2 w1 then [] else [urlString exampleLib u2]) @
       (if fileExists p3 w2 then [] else [urlString exampleLib u3])"
    and x: "fileExists p1 ?w'" "fileExists p2 ?w'" "fileExists p3 ?w'"
    by blast
  have links: "linkURL exampleLib exampleSrc (DSC exampleSrc) = Inr exampleDscURL"
    "linkURL exampleLib exampleSrc (Debian exampleSrc) = Inr exampleDebianURL"
    "linkURL exampleLib exampleSrc (Orig exampleSrc) = Inr exampleOrigURL"
    by code_simp+
  from l links have u: "u1 = exampleDscURL" "u2 = exampleDebianURL" "u3 = exampleOrigURL"
    by simp_all
  have paths: "pathJoin exampleLib (Name exampleSrc) (snd (Split (Path exampleDscURL))) =
      ''foo/foo_1.0.dsc''"
    "pathJoin exampleLib (Name exampleSrc) (snd (Split (Path exampleDebianURL))) =
      ''foo/foo_1.0.debian.tar.xz''"
    "pathJoin exampleLib (Name exampleSrc) (snd (Split (Path exampleOrigURL))) =
      ''foo/foo_1.0.orig.tar.gz''"
    by code_simp+
  from p have p': "p1 = ''foo/foo_1.0.dsc''" "p2 = ''foo/foo_1.0.debian.tar.xz''"
    "p3 = ''foo/foo_1.0.orig.tar.gz''"
    unfolding u paths .
  have nm: "Name exampleSrc = ''foo''"
    by (simp add: exampleSrc_def)
  from d1 have w1: "w1 = snd (download exampleLib goodEnv exampleDscURL ''foo'' emptyWorld)"
    unfolding u nm by simp
  from d2 have w2: "w2 = snd (download exampleLib goodEnv exampleDebianURL ''foo''
      (snd (download exampleLib goodEnv exampleDscURL ''foo'' emptyWorld)))"
    unfolding u nm w1 by simp
  have a1: "\<not> fileExists ''foo/foo_1.0.dsc'' (snd (ensureDirExists goodEnv ''foo'' emptyWorld))"
    by code_simp
  have a2: "\<not> fileExists ''foo/foo_1.0.debian.tar.xz''
      (snd (download exampleLib goodEnv exampleDscURL ''foo'' emptyWorld))"
    by code_simp
  have a3: "\<not> fileExists ''foo/foo_1.0.orig.tar.gz''
      (snd (download exampleLib goodEnv exampleDebianURL ''foo''
        (snd (download exampleLib goodEnv exampleDscURL ''foo'' emptyWorld))))"
    by code_simp
  have strs: "urlString exampleLib exampleDscURL = ''https://packages.debian.org/buster/foo_1.0.dsc''"
    "urlString exampleLib exampleDebianURL =
       ''https://packages.debian.org/buster/foo_1.0.debian.tar.xz''"
    "urlString exampleLib exampleOrigURL =
       ''https://packages.debian.org/buster/foo_1.0.orig.tar.gz''"
    by code_simp+
  have tr': "downloadsOf (trace ?w') =
     [(exampleDscURL, ''foo/foo_1.0.dsc''),
      (exampleDebianURL, ''foo/foo_1.0.debian.tar.xz''),
      (exampleOrigURL, ''foo/foo_1.0.orig.tar.gz'')]"
    using tr unfolding u p' by (simp add: emptyWorld_def)
  have fe': "fetchesOf (trace ?w') =
     [''https://packages.debian.org/buster/foo_1.0.dsc'',
      ''https://packages.debian.org/buster/foo_1.0.debian.tar.xz'',
      ''https://packages.debian.org/buster/foo_1.0.orig.tar.gz'']"
    using fe a1 a2 a3 unfolding u p' nm w1 w2 strs by (simp add: emptyWorld_def)
  have held: "osStat ?w' ''foo/foo_1.0.dsc'' = Found [''foo'', ''foo_1.0.dsc''] (File ''data'')"
    by code_simp
  have dir: "osStat ?w' ''foo'' = Found [''foo''] Dir"
    by code_simp
  from r tr' fe' x [unfolded p'] held dir show ?thesis
    by (intro conjI)
qed

text \<open>
  C2, as amended. For a role whose field is empty, \<^verbatim>\<open>fetch\<close> still runs the
  download step, on the URL that the empty href resolves to against the base URL.
  When the destination path of that URL is the package directory itself (the path of
  the URL ends in \<^verbatim>\<open>/\<close>, as the base URL of the tool does) and the directory exists
  or can be created, the step logs its two lines, fetches nothing, creates no file
  and raises no error, and the loop goes on; an empty description role then has
  the package directory as \<^verbatim>\<open>DscPath\<close>. \<^verbatim>\<open>extract\<close> is never skipped: unless
  \<^verbatim>\<open>StdoutPipe\<close> fails it starts \<^verbatim>\<open>dpkg-source\<close> on the file name of
  \<^verbatim>\<open>DscPath\<close>, in the package directory.
\<close>

theorem absent_role_not_skipped:
  assumes parse: "urlParse lib '''' = Inr u0" and rel: "\<not> IsAbs u0"
    and base: "BaseURL d = Some base"
    and dirpath: "fst (buildPath lib (urlResolveReference lib base u0) (Name d)) = Name d"
    and dir: "fileExists (Name d) w \<or> osMkdir e (Name d) w \<noteq> None"
  shows "fetch_loop lib e ('''' # links) d w =
           fetch_loop lib e links (if DSC d = '''' then d\<lparr>DscPath := Name d\<rparr> else d)
             (w\<lparr>fs := ensured e (Name d) w,
                trace := trace w @
                  [LogDownloading (urlResolveReference lib base u0) (Name d), LogSkipping]\<rparr>) \<and>
         (runCmd e ''dpkg-source'' [''-x'', ''--no-check'', snd (Split (DscPath d))] (Name d) \<noteq>
            PipeFails \<longrightarrow>
          commandsOf (trace (snd (extract e d w))) =
            commandsOf (trace w) @
            [(''dpkg-source'', [''-x'', ''--no-check'', snd (Split (DscPath d))], Name d)])"
proof
  let ?u = "urlResolveReference lib base u0"
  let ?t = "trace w @ [LogDownloading ?u (Name d), LogSkipping]"
  have lu: "linkURL lib d '''' = Inr ?u"
    using parse rel base by (simp add: linkURL_def)
  have dl: "download lib e ?u (Name d) w = (Inr (Name d), w\<lparr>fs := ensured e (Name d) w, trace := ?t\<rparr>)"
  proof (cases rule: ensureDirExists_cases [of w "Name d" e])
    case fails
    with dir show ?thesis
      by (simp add: fileExists_def)
  next
    case (made k)
    from made(4) have "fileExists (Name d) (w\<lparr>fs := (fs w)(k \<mapsto> Dir)\<rparr>)"
      by (simp add: fileExists_def)
    then show ?thesis
      unfolding download_unfold Let_def dirpath ensured_def made(3) by simp
  next
    case there
    have "fileExists (Name d) w"
    proof (rule ccontr)
      assume no: "\<not> fileExists (Name d) w"
      with dir obtain w' where "osMkdir e (Name d) w = Some w'"
        by auto
      from osMkdir_Some [OF this] there(1) show False
        by auto
    qed
    then show ?thesis
      unfolding download_unfold Let_def dirpath ensured_def there(2) by simp
  qed
  show "fetch_loop lib e ('''' # links) d w =
      fetch_loop lib e links (if DSC d = '''' then d\<lparr>DscPath := Name d\<rparr> else d)
        (w\<lparr>fs := ensured e (Name d) w, trace := ?t\<rparr>)"
    by (simp add: lu dl)
next
  show "runCmd e ''dpkg-source'' [''-x'', ''--no-check'', snd (Split (DscPath d))] (Name d) \<noteq>
      PipeFails \<longrightarrow>
    commandsOf (trace (snd (extract e d w))) =
      commandsOf (trace w) @
      [(''dpkg-source'', [''-x'', ''--no-check'', snd (Split (DscPath d))], Name d)]"
    using extract_commands [of e d w] by blast
qed

theorem absent_role_not_skipped_witness:
  "fst (fetch_loop exampleLib goodEnv [''''] exampleNoLinks emptyWorld) =
     Inr (exampleNoLinks\<lparr>DscPath := ''foo''\<rparr>) \<and>
   trace (snd (fetch_loop exampleLib goodEnv [''''] exampleNoLinks emptyWorld)) =
     [LogDownloading exampleBase ''foo'', LogSkipping] \<and>
   fs (snd (fetch_loop exampleLib goodEnv [''''] exampleNoLinks emptyWorld)) [''foo''] = Some Dir \<and>
   commandsOf (trace (snd (extract goodEnv (exampleNoLinks\<lparr>DscPath := ''foo''\<rparr>) emptyWorld))) =
     [(''dpkg-source'', [''-x'', ''--no-check'', ''foo''], ''foo'')]"
proof -
  let ?u0 = "\<lparr>Scheme = '''', Host = '''', Path = '''', RawQuery = '''', Fragment = ''''\<rparr>"
  let ?d = "exampleNoLinks\<lparr>DscPath := ''foo''\<rparr>"
  have parse: "urlParse exampleLib '''' = Inr ?u0"
    by code_simp
  have rel: "\<not> IsAbs ?u0"
    by (simp add: IsAbs_def)
  have res: "urlResolveReference exampleLib exampleBase ?u0 = exampleBase"
    by code_simp
  have nm: "Name exampleNoLinks = ''foo''" and dsc: "DSC exampleNoLinks = ''''"
    and bs: "BaseURL exampleNoLinks = Some exampleBase"
    by (simp_all add: exampleNoLinks_def new_dpkgSrc_def)
  have dirpath: "fst (buildPath exampleLib (urlResolveReference exampleLib exampleBase ?u0)
      (Name exampleNoLinks)) = Name exampleNoLinks"
    by code_simp
  have dir: "fileExists (Name exampleNoLinks) emptyWorld \<or>
      osMkdir goodEnv (Name exampleNoLinks) emptyWorld \<noteq> None"
    by code_simp
  note T = absent_role_not_skipped [OF parse rel bs dirpath dir, of "[]"]
  have made: "ensured goodEnv ''foo'' emptyWorld [''foo''] = Some Dir"
    by code_simp
  have loop: "fetch_loop exampleLib goodEnv [''''] exampleNoLinks emptyWorld =
      (Inr ?d,
       emptyWorld\<lparr>fs := ensured goodEnv ''foo'' emptyWorld,
         trace := trace emptyWorld @ [LogDownloading exampleBase ''foo'', LogSkipping]\<rparr>)"
    using T [THEN conjunct1] unfolding res nm dsc by simp
  have run: "runCmd goodEnv ''dpkg-source'' [''-x'', ''--no-check'', snd (Split (DscPath ?d))] (Name ?d) \<noteq>
      PipeFails"
    by (simp add: goodEnv_def)
  have bs': "BaseURL ?d = Some exampleBase"
    by (simp add: bs)
  have dirpath': "fst (buildPath exampleLib (urlResolveReference exampleLib exampleBase ?u0)
      (Name ?d)) = Name ?d"
    using dirpath by simp
  have dir': "fileExists (Name ?d) emptyWorld \<or> osMkdir goodEnv (Name ?d) emptyWorld \<noteq> None"
    using dir by simp
  have fname: "snd (Split ''foo'') = ''foo''"
    by code_simp
  have cmd: "commandsOf (trace (snd (extract goodEnv ?d emptyWorld))) =
      [(''dpkg-source'', [''-x'', ''--no-check'', ''foo''], ''foo'')]"
    using absent_role_not_skipped [OF parse rel bs' dirpath' dir', of "[]",
        THEN conjunct2, THEN mp, OF run]
    by (simp add: nm fname emptyWorld_def)
  show ?thesis
    unfolding loop using cmd made by (simp add: emptyWorld_def)
qed

text \<open>
  C2 as stated fails: with all three roles empty, \<^verbatim>\<open>fetch\<close> enters
  \<^verbatim>\<open>download\<close> three times (and logs it), and \<^verbatim>\<open>extract\<close> starts
  \<^verbatim>\<open>dpkg-source\<close> on the name of the package directory. Neither step is skipped.
\<close>

theorem absent_roles_counterexample:
  "DSC exampleNoLinks = '''' \<and> Debian exampleNoLinks = '''' \<and> Orig exampleNoLinks = '''' \<and>
   fst (fetch exampleLib goodEnv exampleNoLinks emptyWorld) =
     Inr (exampleNoLinks\<lparr>DscPath := ''foo''\<rparr>) \<and>
   downloadsOf (trace (snd (fetch exampleLib goodEnv exampleNoLinks emptyWorld))) =
     [(exampleBase, ''foo''), (exampleBase, ''foo''), (exampleBase, ''foo'')] \<and>
   commandsOf (trace (snd (extract goodEnv (exampleNoLinks\<lparr>DscPath := ''foo''\<rparr>)
       (snd (fetch exampleLib goodEnv exampleNoLinks emptyWorld))))) =
     [(''dpkg-source'', [''-x'', ''--no-check'', ''foo''], ''foo'')]"
  by code_simp

end
